theory Spec2Isabelle
  imports Main
begin

unbundle bit_operations_syntax

section \<open>The collection engine of sos plugins (sos/plugins/\_\_init\_\_.py)\<close>

text \<open>
  A shallow embedding of the plugin base class of sos: the predicate evaluator, the
  forbidden-path test, the path collector, the copy-spec resolver, the command executor
  and the substitution pass over collected command output.

  Python names that start with an underscore lose it here (\<open>_do_copy_path\<close> is
  \<open>do_copy_path\<close>), and a name that clashes with a HOL constant gets a suffix.
  Calls to the logger only write to the logger, which is not part of the model; where the
  arguments of a logging call can raise, the raise is kept.
\<close>

subsection \<open>Exceptions and outcomes\<close>

type_synonym errno = nat

datatype error =
    IndexError
  | TypeError
  | OSError errno
  | ReError

definition ELOOP :: errno where
  "ELOOP = 40"

subsection \<open>Strings and posix paths\<close>

text \<open>Python's \<open>p in path\<close> on strings: \<open>p\<close> occurs in \<open>path\<close> as a contiguous run.\<close>

fun startswith :: "string \<Rightarrow> string \<Rightarrow> bool" where
  "startswith s [] = True"
| "startswith [] (c # cs) = False"
| "startswith (x # xs) (c # cs) = (x = c \<and> startswith xs cs)"

fun str_in :: "string \<Rightarrow> string \<Rightarrow> bool" where
  "str_in p [] = (p = [])"
| "str_in p (c # cs) = (startswith (c # cs) p \<or> str_in p cs)"

definition endswith :: "string \<Rightarrow> string \<Rightarrow> bool" where
  "endswith s suf = startswith (rev s) (rev suf)"

text \<open>\<open>os.path.join\<close> of posixpath, for two components and folded over more.\<close>

definition path_join :: "string \<Rightarrow> string \<Rightarrow> string" where
  "path_join a b =
     (if startswith b ''/'' then b
      else if a = [] \<or> endswith a ''/'' then a @ b
      else a @ ''/'' @ b)"

definition path_join_list :: "string \<Rightarrow> string list \<Rightarrow> string" where
  "path_join_list a ps = foldl path_join a ps"


definition isabs :: "string \<Rightarrow> bool" where
  "isabs s = startswith s ''/''"

text \<open>
  \<open>posixpath.dirname\<close>: everything up to the last slash, with the trailing slashes
  of that head removed unless the head consists of slashes only.
\<close>

definition dirname :: "string \<Rightarrow> string" where
  "dirname p =
     (let head = rev (dropWhile (\<lambda>c. c \<noteq> CHR ''/'') (rev p))
      in if head \<noteq> [] \<and> \<not> list_all (\<lambda>c. c = CHR ''/'') head
         then rev (dropWhile (\<lambda>c. c = CHR ''/'') (rev head))
         else head)"

definition lstrip :: "char \<Rightarrow> string \<Rightarrow> string" where
  "lstrip c s = dropWhile (\<lambda>x. x = c) s"

definition replace_char :: "char \<Rightarrow> char \<Rightarrow> string \<Rightarrow> string" where
  "replace_char a b s = map (\<lambda>x. if x = a then b else x) s"

text \<open>
  The character classes of the interpreter differ between Python 2 and Python 3 and, for
  Python 2, with the locale; the host below carries them. These are the ASCII ones:
  the white space of \<open>str.split()\<close> and the word characters of \<open>\w\<close>.
\<close>

definition ascii_space :: "char \<Rightarrow> bool" where
  "ascii_space c = (let n = (of_char c :: nat) in (9 \<le> n \<and> n \<le> 13) \<or> n = 32)"

definition ascii_word :: "char \<Rightarrow> bool" where
  "ascii_word c =
     (let n = (of_char c :: nat)
      in (48 \<le> n \<and> n \<le> 57) \<or> (65 \<le> n \<and> n \<le> 90) \<or> (97 \<le> n \<and> n \<le> 122) \<or> n = 95)"

text \<open>\<open>"%d" % n\<close> for a natural number.\<close>

definition digit_char :: "nat \<Rightarrow> char" where
  "digit_char d = char_of (48 + d)"

fun str_of_nat :: "nat \<Rightarrow> string" where
  "str_of_nat n = (if n < 10 then [digit_char n] else str_of_nat (n div 10) @ [digit_char (n mod 10)])"

text \<open>A Python value used as a condition: \<open>None\<close> and the empty string are false.\<close>

definition truthy_str :: "string option \<Rightarrow> bool" where
  "truthy_str s = (case s of None \<Rightarrow> False | Some x \<Rightarrow> x \<noteq> [])"

definition truthy_int :: "int option \<Rightarrow> bool" where
  "truthy_int s = (case s of None \<Rightarrow> False | Some x \<Rightarrow> x \<noteq> 0)"

subsection \<open>The host: everything the plugin asks of the operating system and the policy\<close>

text \<open>
  The operating system, the policy, the process runner of \<open>sos.utilities\<close> and the
  functions of the standard library that the plugin only calls (\<open>glob\<close>, \<open>fnmatch\<close>,
  \<open>re.subn\<close>, \<open>normpath\<close>, \<open>realpath\<close>, \<open>relpath\<close>) are parameters of the model,
  gathered in one record. A system call that fails returns its errno on the left.
  The process runner is given the number of commands run before, so that two runs of
  the same command need not agree.

  The interpreter is part of the host: the module runs under Python 2 and, through
  \<open>six\<close>, under Python 3. \<open>python3\<close> says which one it is, \<open>str_space\<close> is the white
  space at which \<open>str.split()\<close> cuts and \<open>re_word\<close> the class \<open>\w\<close> of \<open>re\<close>.
\<close>

record cmdlineopts =
  opt_dry_run :: bool
  opt_chroot :: string
  opt_log_size :: "int option"
  opt_all_logs :: bool

text \<open>
  A stat buffer. Modification times are only compared with each other, so they are whole
  numbers here.
\<close>

record stat_result =
  st_mode :: nat
  st_rdev :: nat
  st_size :: nat
  st_mtime :: int

text \<open>The dictionary \<open>{status, output}\<close> returned by the process runner.\<close>

record cmd_result =
  cr_status :: int
  cr_output :: string

text \<open>The arguments of \<open>sos_get_command_output\<close>, without the poller.\<close>

record exec_args =
  ea_command :: string
  ea_timeout :: "int option"
  ea_stderr :: bool
  ea_chroot :: "string option"
  ea_chdir :: "string option"
  ea_env :: "(string \<times> string) list option"
  ea_binary :: bool
  ea_sizelimit :: "int option"

record host =
  python3 :: bool
  str_space :: "char \<Rightarrow> bool"
  re_word :: "char \<Rightarrow> bool"
  opts :: cmdlineopts
  cmddir :: string
  archive_path :: string
  name_max :: nat
  is_module_loaded :: "string \<Rightarrow> bool"
  service_is_running :: "string \<Rightarrow> bool"
  os_lstat :: "string \<Rightarrow> errno + stat_result"
  os_stat :: "string \<Rightarrow> errno + stat_result"
  os_readlink :: "string \<Rightarrow> errno + string"
  os_listdir :: "string \<Rightarrow> errno + string list"
  os_access_r :: "string \<Rightarrow> bool"
  os_path_isdir :: "string \<Rightarrow> bool"
  os_path_exists :: "string \<Rightarrow> bool"
  os_path_normpath :: "string \<Rightarrow> string"
  os_path_realpath :: "string \<Rightarrow> string"
  os_path_relpath :: "string \<Rightarrow> string \<Rightarrow> string"
  glob_glob :: "string \<Rightarrow> string list"
  file_content :: "string \<Rightarrow> errno + string"
  sos_get_command_output :: "nat \<Rightarrow> exec_args \<Rightarrow> cmd_result"
  fnmatch :: "string \<Rightarrow> string \<Rightarrow> bool"
  re_subn :: "string \<Rightarrow> string \<Rightarrow> string \<Rightarrow> error + (string \<times> nat)"

text \<open>
  \<open>str.split()\<close> returns no word exactly when every character is white space, and then
  \<open>s.split()[0]\<close> raises IndexError.
\<close>

definition split_is_empty :: "host \<Rightarrow> string \<Rightarrow> bool" where
  "split_is_empty h s = list_all (str_space h) s"

subsection \<open>stat modes\<close>

definition S_IFMT :: "nat \<Rightarrow> nat" where
  "S_IFMT m = m AND 61440"

definition S_ISDIR :: "nat \<Rightarrow> bool" where
  "S_ISDIR m = (S_IFMT m = 16384)"

definition S_ISREG :: "nat \<Rightarrow> bool" where
  "S_ISREG m = (S_IFMT m = 32768)"

definition S_ISLNK :: "nat \<Rightarrow> bool" where
  "S_ISLNK m = (S_IFMT m = 40960)"

subsection \<open>SoSPredicate\<close>

record sos_predicate =
  dry_run :: bool
  kmods :: "string list"
  services :: "string list"

text \<open>
  \<open>SoSPredicate.__init__\<close>: the lists are copied and the dry-run request is or-ed with
  the command line's.
\<close>

definition SoSPredicate :: "host \<Rightarrow> bool \<Rightarrow> string list \<Rightarrow> string list \<Rightarrow> sos_predicate" where
  "SoSPredicate h dr ks ss =
     \<lparr> dry_run = (dr \<or> opt_dry_run (opts h)), kmods = ks, services = ss \<rparr>"

text \<open>The two loops of \<open>__nonzero__\<close>, each folding \<open>pvalue |= check(x)\<close>.\<close>

fun or_loop :: "(string \<Rightarrow> bool) \<Rightarrow> string list \<Rightarrow> bool \<Rightarrow> bool" where
  "or_loop chk [] pvalue = pvalue"
| "or_loop chk (x # xs) pvalue = or_loop chk xs (pvalue \<or> chk x)"

definition nonzero :: "host \<Rightarrow> sos_predicate \<Rightarrow> bool" where
  "nonzero h pr =
     (let pvalue = or_loop (is_module_loaded h) (kmods pr) False;
          pvalue = or_loop (service_is_running h) (services pr) pvalue
      in if \<not> (kmods pr \<noteq> [] \<or> services pr \<noteq> [] \<or> dry_run pr) then True
         else pvalue \<and> \<not> dry_run pr)"

text \<open>
  \<open>bool(pred)\<close>, the only way the module evaluates a predicate. Python 2 calls
  \<open>__nonzero__\<close>. Python 3 looks for \<open>__bool__\<close> and then for \<open>__len__\<close>;
  \<open>SoSPredicate\<close> defines neither, and an object without them is true.
\<close>

definition bool_of_predicate :: "host \<Rightarrow> sos_predicate \<Rightarrow> bool" where
  "bool_of_predicate h pr = (if python3 h then True else nonzero h pr)"

subsection \<open>The plugin and its ledgers\<close>

text \<open>
  The dictionaries appended to \<open>copied_files\<close> and \<open>executed_commands\<close>; their
  \<open>"yes"\<close>/\<open>"no"\<close> strings are booleans here, a key that may be absent or \<open>None\<close> is
  an option, and the keys carry the prefixes \<open>cf_\<close> and \<open>ec_\<close>.
\<close>

record copied_file =
  cf_srcpath :: string
  cf_dstpath :: string
  cf_symlink :: bool
  cf_pointsto :: "string option"

record executed_command =
  ec_exe :: string
  ec_file :: "string option"
  ec_binary :: bool

text \<open>
  A \<open>SoSCommand\<close>: the keyword arguments of \<open>_add_cmd_output\<close>, each field with the
  prefix \<open>sc_\<close>.
\<close>

record sos_command =
  sc_cmd :: string
  sc_suggest_filename :: "string option"
  sc_root_symlink :: "string option"
  sc_timeout :: "int option"
  sc_stderr :: bool
  sc_chroot :: bool
  sc_runat :: "string option"
  sc_env :: "(string \<times> string) list option"
  sc_binary :: bool
  sc_sizelimit :: "int option"
  sc_subdir :: "string option"

text \<open>
  Modelled from the spec: the archive collaborator (\<open>sos.archive\<close> is not part of the
  sources at hand): \<open>addFile\<close>, \<open>addString\<close>, \<open>addBinary\<close>, \<open>addLink\<close>, \<open>addNode\<close>
  append an entry, and \<open>openFile\<close> reads what was last stored under a path.
\<close>

datatype archive_op =
    AddFile string string
  | AddString string string
  | AddBinary string string
  | AddLink string string
  | AddNode string nat nat

text \<open>
  The system calls the plugin issues on paths, in order; \<open>ReadTail\<close> is the call of
  \<open>tail\<close> with the number of bytes asked for.
\<close>

datatype fs_call =
    Lstat string
  | Stat string
  | Getmtime string
  | Readlink string
  | Listdir string
  | ReadTail string int

text \<open>
  \<open>copy_paths\<close> is a Python set: here a list without duplicates in insertion order, which
  is one of the orders in which Python may iterate it. \<open>timeout_hit\<close> is the flag
  \<open>_timeout_hit\<close>, which the thread that runs the plugins sets from outside; no method
  modelled here writes it, and each reads it where the source does.
\<close>

record plugin =
  plugin_name :: string
  sysroot :: string
  timeout_hit :: bool
  predicate :: "sos_predicate option"
  cmd_predicate :: "sos_predicate option"
  copied_files :: "copied_file list"
  executed_commands :: "executed_command list"
  forbidden_paths :: "string list"
  copy_paths :: "string list"
  copy_strings :: "(string \<times> string) list"
  collect_cmds :: "sos_command list"
  archive :: "archive_op list"
  syscalls :: "fs_call list"
  cmd_calls :: "exec_args list"

text \<open>
  What a method call does: it returns a value and leaves a plugin, or it raises and
  leaves the plugin as mutated so far, or the model has no more fuel for it.
\<close>

datatype 'a outcome = Return 'a plugin | Raise error plugin | Diverge

text \<open>The plugin an outcome leaves behind, returned or raised.\<close>

fun outcome_plugin :: "'a outcome \<Rightarrow> plugin option" where
  "outcome_plugin (Return r q) = Some q"
| "outcome_plugin (Raise e q) = Some q"
| "outcome_plugin Diverge = None"

subsection \<open>Sysroot translation and predicates of the plugin\<close>

definition use_sysroot :: "plugin \<Rightarrow> bool" where
  "use_sysroot p = (sysroot p \<noteq> ''/'')"

definition join_sysroot :: "plugin \<Rightarrow> string \<Rightarrow> error + string" where
  "join_sysroot p path =
     (case path of
        [] \<Rightarrow> Inl IndexError
      | c # cs \<Rightarrow> Inr (path_join (sysroot p) (if c = CHR ''/'' then cs else path)))"

definition strip_sysroot :: "plugin \<Rightarrow> string \<Rightarrow> string" where
  "strip_sysroot p path =
     (if \<not> use_sysroot p then path
      else if startswith path (sysroot p) then drop (length (sysroot p)) path
      else path)"

definition get_predicate :: "plugin \<Rightarrow> bool \<Rightarrow> sos_predicate option \<Rightarrow> sos_predicate option" where
  "get_predicate p cmd pred =
     (case pred of
        Some q \<Rightarrow> Some q
      | None \<Rightarrow> if cmd \<and> cmd_predicate p \<noteq> None then cmd_predicate p else predicate p)"

definition test_predicate :: "host \<Rightarrow> plugin \<Rightarrow> bool \<Rightarrow> sos_predicate option \<Rightarrow> bool" where
  "test_predicate h p cmd pred =
     (case get_predicate p cmd pred of Some q \<Rightarrow> bool_of_predicate h q | None \<Rightarrow> False)"

subsection \<open>Forbidden paths\<close>

fun path_in_path_list :: "string \<Rightarrow> string list \<Rightarrow> bool" where
  "path_in_path_list path [] = False"
| "path_in_path_list path (p # ps) = (str_in p path \<or> path_in_path_list path ps)"

definition is_forbidden_path :: "plugin \<Rightarrow> string \<Rightarrow> error + bool" where
  "is_forbidden_path p path =
     (if use_sysroot p then
        (case join_sysroot p path of
           Inl e \<Rightarrow> Inl e
         | Inr joined \<Rightarrow> Inr (path_in_path_list joined (forbidden_paths p)))
      else Inr (path_in_path_list path (forbidden_paths p)))"

definition file_is_compressed :: "string \<Rightarrow> bool" where
  "file_is_compressed path =
     (endswith path ''.gz'' \<or> endswith path ''.xz'' \<or> endswith path ''.bz'' \<or> endswith path ''.bz2'')"

subsection \<open>The path collector\<close>

text \<open>
  \<open>os.makedev(os.major(d), os.minor(d))\<close> is \<open>d\<close> again, so \<open>_copy_node\<close> hands
  the device number of the stat buffer to the archive.
\<close>

definition copy_node :: "plugin \<Rightarrow> string \<Rightarrow> stat_result \<Rightarrow> plugin" where
  "copy_node p path st = p\<lparr>archive := archive p @ [AddNode path (st_mode st) (st_rdev st)]\<rparr>"

text \<open>
  \<open>_do_copy_path\<close>, \<open>_copy_symlink\<close> and \<open>_copy_dir\<close> call each other. The first
  argument is fuel: each entry into \<open>_do_copy_path\<close> uses one unit.
  \<open>copy_dir_loop\<close> is the \<open>for\<close> loop of \<open>_copy_dir\<close> and \<open>copy_dir\<close> its
  \<open>try\<close> with the handler for \<open>OSError\<close>.
\<close>

function (sequential) do_copy_path :: "nat \<Rightarrow> host \<Rightarrow> plugin \<Rightarrow> string \<Rightarrow> string option \<Rightarrow> string option outcome"
  and copy_symlink :: "nat \<Rightarrow> host \<Rightarrow> plugin \<Rightarrow> string \<Rightarrow> unit outcome"
  and copy_dir :: "nat \<Rightarrow> host \<Rightarrow> plugin \<Rightarrow> string \<Rightarrow> unit outcome"
  and copy_dir_loop :: "nat \<Rightarrow> host \<Rightarrow> plugin \<Rightarrow> string \<Rightarrow> string list \<Rightarrow> unit outcome"
where
  "do_copy_path 0 h p srcpath dest = Diverge"
| "do_copy_path (Suc n) h p srcpath dest =
     (if timeout_hit p then Return None p
      else case is_forbidden_path p srcpath of
        Inl e \<Rightarrow> Raise e p
      | Inr True \<Rightarrow> Return (Some []) p
      | Inr False \<Rightarrow>
         (let dest1 = (if truthy_str dest then the dest else srcpath);
              dest2 = (if use_sysroot p then strip_sysroot p dest1 else dest1);
              p1 = p\<lparr>syscalls := syscalls p @ [Lstat srcpath]\<rparr>
          in case os_lstat h srcpath of
               Inl en \<Rightarrow> Return None p1
             | Inr st \<Rightarrow>
                if S_ISLNK (st_mode st) then
                  (case copy_symlink n h p1 srcpath of
                     Return u q \<Rightarrow> Return None q
                   | Raise e q \<Rightarrow> Raise e q
                   | Diverge \<Rightarrow> Diverge)
                else if S_ISDIR (st_mode st) \<and> os_access_r h srcpath then
                  (case copy_dir n h p1 srcpath of
                     Return u q \<Rightarrow> Return None q
                   | Raise e q \<Rightarrow> Raise e q
                   | Diverge \<Rightarrow> Diverge)
                else if \<not> (S_ISREG (st_mode st) \<or> S_ISDIR (st_mode st)) then
                  Return None (copy_node p1 srcpath st)
                else
                  (let p2 = p1\<lparr>archive := archive p1 @
                              [if st_mode st AND 292 = 0 then AddString [] dest2
                               else AddFile srcpath dest2]\<rparr>
                   in Return None
                        (p2\<lparr>copied_files := copied_files p2 @
                           [\<lparr>cf_srcpath = srcpath, cf_dstpath = dest2, cf_symlink = False,
                             cf_pointsto = None\<rparr>]\<rparr>))))"
| "copy_symlink n h p srcpath =
     (let p1 = p\<lparr>syscalls := syscalls p @ [Readlink srcpath]\<rparr>
      in case os_readlink h srcpath of
           Inl en \<Rightarrow> Raise (OSError en) p1
         | Inr linkdest \<Rightarrow>
            (let dest = path_join (dirname srcpath) linkdest;
                 absdest = os_path_normpath h dest;
                 reldest =
                   (if isabs linkdest then
                      (let realdir = os_path_realpath h (dirname srcpath);
                           rd = os_path_relpath h linkdest realdir
                       in if use_sysroot p then drop 3 rd else rd)
                    else linkdest);
                 dstpath = strip_sysroot p srcpath;
                 p2 = p1\<lparr>archive := archive p1 @ [AddLink reldest dstpath]\<rparr>
             in if os_path_isdir h absdest then Return () p2
                else
                  (let p3 = p2\<lparr>copied_files := copied_files p2 @
                              [\<lparr>cf_srcpath = srcpath, cf_dstpath = dstpath, cf_symlink = True,
                                cf_pointsto = Some linkdest\<rparr>]\<rparr>;
                       p4 = p3\<lparr>syscalls := syscalls p3 @ [Stat absdest]\<rparr>
                   in if os_stat h absdest = Inl 40 then Return () p4
                      else if absdest \<noteq> srcpath then
                        (case do_copy_path n h p4 (strip_sysroot p4 absdest) None of
                           Return r q \<Rightarrow> Return () q
                         | Raise e q \<Rightarrow> Raise e q
                         | Diverge \<Rightarrow> Diverge)
                      else Return () p4)))"
| "copy_dir n h p srcpath =
     (let p1 = p\<lparr>syscalls := syscalls p @ [Listdir srcpath]\<rparr>
      in case os_listdir h srcpath of
           Inl en \<Rightarrow> if en = ELOOP then Return () p1 else Raise (OSError en) p1
         | Inr entries \<Rightarrow>
            (case copy_dir_loop n h p1 srcpath entries of
               Raise (OSError en) q \<Rightarrow>
                 if en = ELOOP then Return () q else Raise (OSError en) q
             | other \<Rightarrow> other))"
| "copy_dir_loop n h p srcpath [] = Return () p"
| "copy_dir_loop n h p srcpath (afile # rest) =
     (case do_copy_path n h p (path_join srcpath afile) None of
        Return r q \<Rightarrow> copy_dir_loop n h q srcpath rest
      | Raise e q \<Rightarrow> Raise e q
      | Diverge \<Rightarrow> Diverge)"
  by pat_completeness auto

termination
  apply (relation "measures
     [\<lambda>x. case x of
          Inl (Inl (n, h, p, s, d)) \<Rightarrow> 4 * n
        | Inl (Inr (n, h, p, s)) \<Rightarrow> 4 * n + 1
        | Inr (Inl (n, h, p, s)) \<Rightarrow> 4 * n + 3
        | Inr (Inr (n, h, p, s, xs)) \<Rightarrow> 4 * n + 2,
      \<lambda>x. case x of
          Inr (Inr (n, h, p, s, xs)) \<Rightarrow> length xs
        | _ \<Rightarrow> 0]")
  apply simp_all
  done

declare do_copy_path.simps [simp del]

subsection \<open>The copy-spec resolver\<close>

text \<open>
  Modelled from the spec: \<open>tail\<close> of \<open>sos.utilities\<close>, which is not part of the
  sources at hand; it reads the final bytes of a file, at most as many as asked for.
\<close>

definition tail :: "host \<Rightarrow> string \<Rightarrow> int \<Rightarrow> errno + string" where
  "tail h path n =
     (case file_content h path of
        Inl en \<Rightarrow> Inl en
      | Inr c \<Rightarrow> Inr (drop (length c - nat n) c))"

definition add_copy_paths :: "plugin \<Rightarrow> string list \<Rightarrow> plugin" where
  "add_copy_paths p paths =
     p\<lparr>copy_paths := copy_paths p @ filter (\<lambda>x. x \<notin> set (copy_paths p)) (remdups paths)\<rparr>"

definition add_string_as_file :: "host \<Rightarrow> plugin \<Rightarrow> string \<Rightarrow> string \<Rightarrow> sos_predicate option \<Rightarrow> plugin" where
  "add_string_as_file h p content filename pred =
     (if \<not> test_predicate h p False pred then p
      else p\<lparr>copy_strings := copy_strings p @ [(content, filename)]\<rparr>)"

text \<open>The key of the sort in \<open>add_copy_spec\<close>; a file that cannot be examined counts as 0.\<close>

definition getmtime :: "host \<Rightarrow> string \<Rightarrow> int" where
  "getmtime h path = (case os_stat h path of Inl en \<Rightarrow> 0 | Inr st \<Rightarrow> st_mtime st)"

text \<open>
  \<open>files.sort(key=getmtime, reverse=True)\<close>: a stable sort, largest key first, files
  with equal keys staying in their order.
\<close>

definition sort_newest_first :: "host \<Rightarrow> string list \<Rightarrow> string list" where
  "sort_newest_first h files = sort_key (\<lambda>f. - getmtime h f) files"

text \<open>
  The loop \<open>for _file in files\<close> of \<open>add_copy_spec\<close>. It carries \<open>current_size\<close>
  and the loop variable \<open>_file\<close>, and returns them with \<open>limit_reached\<close>. The size
  limit is the one in bytes.
\<close>

fun copy_spec_loop ::
  "host \<Rightarrow> int option \<Rightarrow> string list \<Rightarrow> int \<Rightarrow> string option \<Rightarrow> plugin
     \<Rightarrow> (int \<times> bool \<times> string option) outcome"
where
  "copy_spec_loop h sizelimit [] current_size lastfile p =
     Return (current_size, False, lastfile) p"
| "copy_spec_loop h sizelimit (f # files) current_size lastfile p =
     (case is_forbidden_path p f of
        Inl e \<Rightarrow> Raise e p
      | Inr True \<Rightarrow> copy_spec_loop h sizelimit files current_size (Some f) p
      | Inr False \<Rightarrow>
         (let p1 = p\<lparr>syscalls := syscalls p @ [Stat f]\<rparr>;
              size1 = (case os_stat h f of
                         Inl en \<Rightarrow> current_size
                       | Inr st \<Rightarrow> current_size + int (st_size st))
          in if truthy_int sizelimit \<and> size1 > the sizelimit
             then Return (size1, True, Some f) p1
             else copy_spec_loop h sizelimit files size1 (Some f) (add_copy_paths p1 [f])))"

text \<open>
  The tail fallback after the loop: the string artifact \<open>strfile\<close> and the link
  from the file to it.
\<close>

definition tail_fallback :: "host \<Rightarrow> plugin \<Rightarrow> string \<Rightarrow> int \<Rightarrow> unit outcome" where
  "tail_fallback h p f sizelimit =
     (case f of
        [] \<Rightarrow> Raise IndexError p
      | c # cs \<Rightarrow>
         (let file_name = (if c = CHR ''/'' then lstrip (CHR ''/'') f else f);
              strfile = replace_char (CHR ''/'') (CHR ''.'') file_name @ ''.tailed'';
              p1 = p\<lparr>syscalls := syscalls p @ [ReadTail f sizelimit]\<rparr>
          in case tail h f sizelimit of
               Inl en \<Rightarrow> Raise (OSError en) p1
             | Inr content \<Rightarrow>
                (let p2 = add_string_as_file h p1 content strfile None;
                     rel_path = os_path_relpath h ''/'' (dirname f);
                     link_path = path_join_list rel_path [''sos_strings'', plugin_name p, strfile]
                 in Return () (p2\<lparr>archive := archive p2 @ [AddLink link_path f]\<rparr>))))"

text \<open>One round of the loop \<open>for copyspec in copyspecs\<close>, for a copyspec that is not empty.\<close>

definition add_one_copy_spec :: "host \<Rightarrow> plugin \<Rightarrow> string \<Rightarrow> int option \<Rightarrow> bool \<Rightarrow> unit outcome" where
  "add_one_copy_spec h p copyspec sizelimit tailit =
     (case (if use_sysroot p then join_sysroot p copyspec else Inr copyspec) of
        Inl e \<Rightarrow> Raise e p
      | Inr spec \<Rightarrow>
         (let files = glob_glob h spec
          in if length files = 0 then Return () p
             else
              (let sorted_files = sort_newest_first h files;
                   p1 = p\<lparr>syscalls := syscalls p @ map Getmtime files\<rparr>
               in case copy_spec_loop h sizelimit sorted_files 0 None p1 of
                    Raise e q \<Rightarrow> Raise e q
                  | Diverge \<Rightarrow> Diverge
                  | Return (current_size, limit_reached, lastfile) q \<Rightarrow>
                     if limit_reached \<and> tailit \<and> \<not> file_is_compressed (the lastfile)
                     then tail_fallback h q (the lastfile) (the sizelimit)
                     else Return () q)))"

text \<open>
  The loop over the copyspecs: \<open>Some False\<close> is the \<open>return False\<close> at an empty
  copyspec, \<open>None\<close> the end of the function.
\<close>

fun copy_specs_loop :: "host \<Rightarrow> plugin \<Rightarrow> string list \<Rightarrow> int option \<Rightarrow> bool \<Rightarrow> bool option outcome" where
  "copy_specs_loop h p [] sizelimit tailit = Return None p"
| "copy_specs_loop h p (copyspec # rest) sizelimit tailit =
     (if copyspec = [] then Return (Some False) p
      else case add_one_copy_spec h p copyspec sizelimit tailit of
             Raise e q \<Rightarrow> Raise e q
           | Diverge \<Rightarrow> Diverge
           | Return u q \<Rightarrow> copy_specs_loop h q rest sizelimit tailit)"

text \<open>The argument \<open>copyspecs\<close> is a string or a list of strings.\<close>

datatype copyspecs = OneSpec string | SpecList "string list"

definition add_copy_spec ::
  "host \<Rightarrow> plugin \<Rightarrow> copyspecs \<Rightarrow> int option \<Rightarrow> bool \<Rightarrow> sos_predicate option
     \<Rightarrow> bool option outcome"
where
  "add_copy_spec h p specs sizelimit tailit pred =
     (if \<not> test_predicate h p False pred then Return None p
      else
       (let sizelimit1 = (case sizelimit of None \<Rightarrow> opt_log_size (opts h) | Some s \<Rightarrow> Some s);
            sizelimit2 = (if opt_all_logs (opts h) then None else sizelimit1);
            sizelimit3 = (if truthy_int sizelimit2 then Some (the sizelimit2 * 1024 * 1024)
                          else sizelimit2)
        in case specs of
             OneSpec s \<Rightarrow>
               if s = [] then Return (Some False) p
               else copy_specs_loop h p [s] sizelimit3 tailit
           | SpecList l \<Rightarrow>
               if l = [] then Return (Some False) p
               else copy_specs_loop h p l sizelimit3 tailit))"

text \<open>
  What \<open>add_copy_spec\<close> may change with respect to forbidden paths, from the plugin
  \<open>p\<close> before to the plugin \<open>q\<close> after: the sysroot, the forbidden paths and the
  ledger of copied files stay, a path new in \<open>copy_paths\<close> is not forbidden, the
  archive only gains links from files that are not forbidden, and a new string to
  collect is the tail of a file that is not forbidden.
\<close>

definition respects_forbidden :: "host \<Rightarrow> plugin \<Rightarrow> plugin \<Rightarrow> bool" where
  "respects_forbidden h p q =
     (sysroot q = sysroot p \<and> forbidden_paths q = forbidden_paths p \<and>
      copied_files q = copied_files p \<and>
      (\<forall>f \<in> set (copy_paths q). f \<in> set (copy_paths p) \<or> is_forbidden_path p f = Inr False) \<and>
      (\<exists>ops. archive q = archive p @ ops \<and>
         (\<forall>op \<in> set ops. \<exists>l f. op = AddLink l f \<and> is_forbidden_path p f = Inr False)) \<and>
      (\<exists>strs. copy_strings q = copy_strings p @ strs \<and>
         (\<forall>s \<in> set strs. \<exists>f k. tail h f k = Inr (fst s) \<and> is_forbidden_path p f = Inr False)))"

subsection \<open>The command executor\<close>

text \<open>
  \<open>get_command_output\<close> calls itself once, without chroot, when a command was not found
  in a root other than \<open>/\<close>. The logging calls raise where their arguments do:
  \<open>"%ds" % timeout\<close> for a timeout of \<open>None\<close>, and \<open>prog.split()[0]\<close> for a blank
  command. A plain \<open>return\<close> gives \<open>None\<close>.
\<close>

function get_command_output ::
  "host \<Rightarrow> plugin \<Rightarrow> string \<Rightarrow> int option \<Rightarrow> bool \<Rightarrow> bool \<Rightarrow> string option
     \<Rightarrow> (string \<times> string) list option \<Rightarrow> bool \<Rightarrow> int option \<Rightarrow> cmd_result option outcome"
where
  "get_command_output h p prog tmo serr chrt runat env bin sizelimit =
     (if timeout_hit p then Return None p
      else
       (let root = (if chrt \<or> opt_chroot (opts h) = ''always'' then Some (sysroot p) else None);
            args = \<lparr>ea_command = prog, ea_timeout = tmo, ea_stderr = serr, ea_chroot = root,
                     ea_chdir = runat, ea_env = env, ea_binary = bin,
                     ea_sizelimit = sizelimit\<rparr>;
            result = sos_get_command_output h (length (cmd_calls p)) args;
            p1 = p\<lparr>cmd_calls := cmd_calls p @ [args]\<rparr>
        in if cr_status result = 124 \<and> tmo = None then Raise TypeError p1
           else if cr_status result = 126 \<or> cr_status result = 127 then
             (if truthy_str root \<and> root \<noteq> Some ''/'' then
                (if opt_chroot (opts h) \<noteq> ''always'' then
                   (if split_is_empty h prog then Raise IndexError p1
                    else get_command_output h p1 prog tmo True False runat env bin None)
                 else Return (Some result) p1)
              else Return (Some result) p1)
           else Return (Some result) p1))"
  by pat_completeness auto

termination
  apply (relation "measure (\<lambda>(h, p, prog, tmo, serr, chrt, rest).
            if chrt \<or> opt_chroot (opts h) = ''always'' then 1 else 0)")
  apply (simp_all add: truthy_str_def split: if_splits)
  done

declare get_command_output.simps [simp del]

text \<open>
  \<open>_mangle_command\<close>: the three substitutions, the strip and the cut, in that order.
  \<open>\w\<close> is the class of the host's interpreter.
\<close>

definition mangle_keep :: "host \<Rightarrow> char \<Rightarrow> bool" where
  "mangle_keep h c = (re_word h c \<or> c = CHR ''-'' \<or> c = CHR ''.'' \<or> c = CHR ''/'')"

text \<open>\<open>re.sub(r"^/(usr/|)(bin|sbin)/", "", command)\<close>\<close>

definition strip_bin_prefix :: "string \<Rightarrow> string" where
  "strip_bin_prefix command =
     (if startswith command ''/usr/bin/'' then drop 9 command
      else if startswith command ''/usr/sbin/'' then drop 10 command
      else if startswith command ''/bin/'' then drop 5 command
      else if startswith command ''/sbin/'' then drop 6 command
      else command)"

text \<open>
  \<open>re.sub(r"[^\w\-\.\/]+", "_", s)\<close>: each maximal run of other characters becomes one
  underscore; the flag says that the run has begun.
\<close>

fun sub_runs :: "host \<Rightarrow> bool \<Rightarrow> string \<Rightarrow> string" where
  "sub_runs h in_run [] = []"
| "sub_runs h in_run (c # cs) =
     (if mangle_keep h c then c # sub_runs h False cs
      else if in_run then sub_runs h True cs
      else CHR ''_'' # sub_runs h True cs)"

definition strip_chars :: "string \<Rightarrow> string \<Rightarrow> string" where
  "strip_chars chars s =
     rev (dropWhile (\<lambda>c. c \<in> set chars) (rev (dropWhile (\<lambda>c. c \<in> set chars) s)))"

definition mangle_command :: "host \<Rightarrow> string \<Rightarrow> nat \<Rightarrow> string" where
  "mangle_command h command nmax =
     (let mangledname = strip_bin_prefix command;
          mangledname = sub_runs h False mangledname;
          mangledname = strip_chars '' ._-'' (replace_char (CHR ''/'') (CHR ''.'') mangledname)
      in take nmax mangledname)"

text \<open>
  The \<open>while True\<close> of \<open>_make_command_filename\<close>, which ends at the first name
  \<open>outfn_2\<close>, \<open>outfn_3\<close>, ... that does not exist; it has no other exit.
\<close>

partial_function (option) next_free_name :: "host \<Rightarrow> string \<Rightarrow> nat \<Rightarrow> string option" where
  "next_free_name h outfn inc =
     (if \<not> os_path_exists h (outfn @ ''_'' @ str_of_nat inc)
      then Some (outfn @ ''_'' @ str_of_nat inc)
      else next_free_name h outfn (inc + 1))"

declare next_free_name.simps [code]

definition make_command_filename :: "host \<Rightarrow> plugin \<Rightarrow> string \<Rightarrow> string option \<Rightarrow> string option" where
  "make_command_filename h p exename subdir =
     (let plugin_dir = (if truthy_str subdir
                        then plugin_name p @ ''/'' @ takeWhile (\<lambda>c. c \<noteq> CHR ''/'') (the subdir)
                        else plugin_name p);
          outfn = path_join_list (cmddir h) [plugin_dir, mangle_command h exename (name_max h)]
      in if os_path_exists h outfn then next_free_name h outfn 2 else Some outfn)"


subsection \<open>Substitution in collected command output\<close>

text \<open>
  Modelled from the spec: \<open>openFile\<close> of the archive collaborator reads what was last
  stored under a path, and fails with \<open>ENOENT\<close> when nothing was. The list is
  the archive with its newest entry first.
\<close>

fun open_newest :: "host \<Rightarrow> archive_op list \<Rightarrow> string \<Rightarrow> error + string" where
  "open_newest h [] path = Inl (OSError 2)"
| "open_newest h (AddString c d # ops) path = (if d = path then Inr c else open_newest h ops path)"
| "open_newest h (AddBinary c d # ops) path = (if d = path then Inr c else open_newest h ops path)"
| "open_newest h (AddFile src d # ops) path =
     (if d = path
      then (case file_content h src of Inl en \<Rightarrow> Inl (OSError en) | Inr c \<Rightarrow> Inr c)
      else open_newest h ops path)"
| "open_newest h (AddLink t d # ops) path = open_newest h ops path"
| "open_newest h (AddNode d m r # ops) path = open_newest h ops path"

definition open_file :: "host \<Rightarrow> plugin \<Rightarrow> string \<Rightarrow> error + string" where
  "open_file h p path = open_newest h (rev (archive p)) path"

text \<open>
  The loop of \<open>do_cmd_output_sub\<close> inside its \<open>try\<close>; it carries the variable
  \<open>replacements\<close>, which starts as \<open>None\<close>.
\<close>

fun cmd_output_sub_loop ::
  "host \<Rightarrow> string \<Rightarrow> string \<Rightarrow> string \<Rightarrow> executed_command list \<Rightarrow> nat option \<Rightarrow> plugin
     \<Rightarrow> nat option outcome"
where
  "cmd_output_sub_loop h globstr regexp subst [] replacements p = Return replacements p"
| "cmd_output_sub_loop h globstr regexp subst (called # rest) replacements p =
     (case ec_file called of
        None \<Rightarrow> cmd_output_sub_loop h globstr regexp subst rest replacements p
      | Some f \<Rightarrow>
         if ec_binary called
         then cmd_output_sub_loop h globstr regexp subst rest replacements p
         else if fnmatch h (ec_exe called) globstr then
           (let path = path_join (cmddir h) f
            in case open_file h p path of
                 Inl e \<Rightarrow> Raise e p
               | Inr content \<Rightarrow>
                  (case re_subn h regexp subst content of
                     Inl e \<Rightarrow> Raise e p
                   | Inr (result, n) \<Rightarrow>
                      cmd_output_sub_loop h globstr regexp subst rest (Some n)
                        (if n \<noteq> 0 then p\<lparr>archive := archive p @ [AddString result path]\<rparr>
                         else p)))
         else cmd_output_sub_loop h globstr regexp subst rest replacements p)"

text \<open>The handler \<open>except Exception\<close> logs and sets \<open>replacements = None\<close>.\<close>

definition do_cmd_output_sub :: "host \<Rightarrow> plugin \<Rightarrow> string \<Rightarrow> string \<Rightarrow> string \<Rightarrow> nat option outcome" where
  "do_cmd_output_sub h p cmd regexp subst =
     (let globstr = ''*'' @ cmd @ ''*''
      in if executed_commands p = [] then Return (Some 0) p
         else (case cmd_output_sub_loop h globstr regexp subst (executed_commands p) None p of
                 Raise e q \<Rightarrow> Return None q
               | other \<Rightarrow> other))"

subsection \<open>Registering forbidden paths and collecting\<close>

fun join_sysroot_all :: "plugin \<Rightarrow> string list \<Rightarrow> error + string list" where
  "join_sysroot_all p [] = Inr []"
| "join_sysroot_all p (f # fs) =
     (case join_sysroot p f of
        Inl e \<Rightarrow> Inl e
      | Inr j \<Rightarrow> (case join_sysroot_all p fs of Inl e \<Rightarrow> Inl e | Inr js \<Rightarrow> Inr (j # js)))"

text \<open>\<open>add_forbidden_path\<close> for a list of paths; a single string is the list of it.\<close>

definition add_forbidden_path :: "host \<Rightarrow> plugin \<Rightarrow> string list \<Rightarrow> unit outcome" where
  "add_forbidden_path h p forbidden =
     (case (if use_sysroot p then join_sysroot_all p forbidden else Inr forbidden) of
        Inl e \<Rightarrow> Raise e p
      | Inr fs \<Rightarrow>
          Return () (p\<lparr>forbidden_paths := forbidden_paths p @ concat (map (glob_glob h) fs)\<rparr>))"





subsection \<open>A small host and plugin for concrete runs\<close>

text \<open>
  A host that runs Python 3, on which nothing exists and every command succeeds with no
  output, and a plugin fresh from \<open>__init__\<close> with the root as sysroot and the null
  predicate. Concrete runs below update the fields they need.
\<close>

definition opts0 :: cmdlineopts where
  "opts0 = \<lparr>opt_dry_run = False, opt_chroot = ''auto'', opt_log_size = Some 25,
            opt_all_logs = False\<rparr>"

definition host0 :: host where
  "host0 =
     \<lparr>python3 = True, str_space = ascii_space, re_word = ascii_word, opts = opts0, cmddir = ''sos_commands'', archive_path = ''/tmp/sos'', name_max = 255,
      is_module_loaded = (\<lambda>k. False), service_is_running = (\<lambda>s. False),
      os_lstat = (\<lambda>f. Inl 2), os_stat = (\<lambda>f. Inl 2), os_readlink = (\<lambda>f. Inl 2),
      os_listdir = (\<lambda>f. Inl 2), os_access_r = (\<lambda>f. False), os_path_isdir = (\<lambda>f. False),
      os_path_exists = (\<lambda>f. False), os_path_normpath = (\<lambda>f. f),
      os_path_realpath = (\<lambda>f. f), os_path_relpath = (\<lambda>f start. f),
      glob_glob = (\<lambda>f. []), file_content = (\<lambda>f. Inl 2),
      sos_get_command_output = (\<lambda>n a. \<lparr>cr_status = 0, cr_output = []\<rparr>),
      fnmatch = (\<lambda>name pat. False), re_subn = (\<lambda>r sub c. Inr (c, 0))\<rparr>"

definition plugin0 :: plugin where
  "plugin0 =
     \<lparr>plugin_name = ''demo'', sysroot = ''/'', timeout_hit = False,
      predicate = Some \<lparr>dry_run = False, kmods = [], services = []\<rparr>,
      cmd_predicate = None, copied_files = [], executed_commands = [],
      forbidden_paths = [], copy_paths = [], copy_strings = [], collect_cmds = [],
      archive = [], syscalls = [], cmd_calls = []\<rparr>"

text \<open>
  A host with two files under \<open>/etc\<close> and a plugin for which one of them is forbidden; a
  command; and a plugin with work pending whose timeout flag is set.
\<close>

definition reg_file :: "nat \<Rightarrow> int \<Rightarrow> stat_result" where
  "reg_file sz mtime = \<lparr>st_mode = 33188, st_rdev = 0, st_size = sz, st_mtime = mtime\<rparr>"

definition etc_host :: host where
  "etc_host = host0
     \<lparr>glob_glob := (\<lambda>g. if g = ''/etc/*'' then [''/etc/passwd'', ''/etc/shadow''] else []),
      os_stat := (\<lambda>f. if f = ''/etc/passwd'' \<or> f = ''/etc/shadow'' then Inr (reg_file 1024 1) else Inl 2),
      os_lstat := (\<lambda>f. if f = ''/etc/passwd'' \<or> f = ''/etc/shadow'' then Inr (reg_file 1024 1) else Inl 2)\<rparr>"

definition etc_plugin :: plugin where
  "etc_plugin = plugin0\<lparr>forbidden_paths := [''/etc/shadow'']\<rparr>"



text \<open>
  The bytes that the loop of \<open>add_copy_spec\<close> adds to \<open>current_size\<close> for a file: its
  size, or nothing when \<open>os.stat\<close> fails.
\<close>

definition stat_size :: "host \<Rightarrow> string \<Rightarrow> int" where
  "stat_size h f = (case os_stat h f of Inl en \<Rightarrow> 0 | Inr st \<Rightarrow> int (st_size st))"

text \<open>
  A host with three log files of 10 MB each, which the glob returns in another order than
  their age, and a host on which commands are not found under the root \<open>/sysroot\<close>.
\<close>

definition ten_mb :: string where
  "ten_mb = replicate 10485760 CHR ''x''"

definition logs_host :: host where
  "logs_host = host0
     \<lparr>glob_glob := (\<lambda>g. if g = ''/var/log/app*''
                         then [''/var/log/app.2'', ''/var/log/app'', ''/var/log/app.1''] else []),
      os_stat := (\<lambda>f. if f = ''/var/log/app'' then Inr (reg_file 10485760 30)
                       else if f = ''/var/log/app.1'' then Inr (reg_file 10485760 20)
                       else if f = ''/var/log/app.2'' then Inr (reg_file 10485760 10)
                       else Inl 2),
      os_path_relpath := (\<lambda>f start. if f = ''/'' \<and> start = ''/var/log'' then ''../..'' else f),
      file_content := (\<lambda>f. if f = ''/var/log/app'' \<or> f = ''/var/log/app.1'' \<or> f = ''/var/log/app.2''
                            then Inr ten_mb else Inl 2)\<rparr>"

definition chroot_plugin :: plugin where
  "chroot_plugin = plugin0\<lparr>sysroot := ''/sysroot''\<rparr>"

definition chroot_host :: host where
  "chroot_host = host0
     \<lparr>sos_get_command_output :=
        (\<lambda>n a. if ea_chroot a = Some ''/sysroot'' then \<lparr>cr_status = 127, cr_output = []\<rparr>
               else \<lparr>cr_status = 1, cr_output = ''lvm: no volume groups''\<rparr>)\<rparr>"

text \<open>
  A host for the substitution pass, on which \<open>fnmatch\<close> knows the glob \<open>*ip*\<close> and
  \<open>re.subn\<close> the patterns of one ordinary character, with a plugin that has run two
  commands; a host on which no command is found; and a host running Python 2 with
  \<open>--dry-run\<close>, with the plugin that \<open>__init__\<close> makes there.
\<close>

definition sub_host :: host where
  "sub_host = host0
     \<lparr>fnmatch := (\<lambda>name pat. pat = ''*ip*'' \<and> str_in ''ip'' name),
      re_subn := (\<lambda>regexp subst content.
                    case regexp of
                      [ch] \<Rightarrow> Inr (concat (map (\<lambda>x. if x = ch then subst else [x]) content),
                                  length (filter (\<lambda>x. x = ch) content))
                    | _ \<Rightarrow> Inl ReError)\<rparr>"

definition sub_plugin :: plugin where
  "sub_plugin = plugin0
     \<lparr>executed_commands :=
        [\<lparr>ec_exe = ''ip addr'', ec_file = Some ''demo/ip_addr'', ec_binary = False\<rparr>,
         \<lparr>ec_exe = ''ip route'', ec_file = Some ''demo/ip_route'', ec_binary = False\<rparr>],
      archive :=
        [AddString ''axxa'' ''sos_commands/demo/ip_addr'',
         AddString ''bbb'' ''sos_commands/demo/ip_route'']\<rparr>"



definition dry_run_host :: host where
  "dry_run_host = host0\<lparr>python3 := False, opts := opts0\<lparr>opt_dry_run := True\<rparr>\<rparr>"

definition dry_run_plugin :: plugin where
  "dry_run_plugin = plugin0\<lparr>predicate := Some (SoSPredicate dry_run_host False [] [])\<rparr>"

section \<open>Properties\<close>

subsection \<open>Facts about the string helpers\<close>

lemma startswith_iff: "startswith s p \<longleftrightarrow> (\<exists>b. s = p @ b)"
  by (induction s p rule: startswith.induct) auto

lemma str_in_iff: "str_in p s \<longleftrightarrow> (\<exists>a b. s = a @ p @ b)"
proof (induction s)
  case Nil
  then show ?case by auto
next
  case (Cons c cs)
  show ?case
  proof
    assume "str_in p (c # cs)"
    then consider "startswith (c # cs) p" | "str_in p cs" by auto
    then show "\<exists>a b. c # cs = a @ p @ b"
    proof cases
      case 1
      then obtain b where "c # cs = p @ b" by (auto simp: startswith_iff)
      then have "c # cs = [] @ p @ b" by simp
      then show ?thesis by blast
    next
      case 2
      then obtain a b where "cs = a @ p @ b" using Cons.IH by auto
      then have "c # cs = (c # a) @ p @ b" by simp
      then show ?thesis by blast
    qed
  next
    assume "\<exists>a b. c # cs = a @ p @ b"
    then obtain a b where ab: "c # cs = a @ p @ b" by blast
    show "str_in p (c # cs)"
    proof (cases a)
      case Nil
      with ab have "startswith (c # cs) p" by (auto simp: startswith_iff)
      then show ?thesis by simp
    next
      case (Cons a0 as)
      with ab have "cs = as @ p @ b" by simp
      then have "str_in p cs" using Cons.IH by blast
      then show ?thesis by simp
    qed
  qed
qed

lemma or_loop_iff: "or_loop chk xs pv \<longleftrightarrow> pv \<or> (\<exists>x \<in> set xs. chk x)"
  by (induction xs arbitrary: pv) auto


subsection \<open>The predicate evaluator\<close>

text \<open>
  \<open>__nonzero__\<close> returns true for the null predicate (no kernel module, no service, no
  dry run); otherwise it returns the disjunction of "module loaded" over the kernel
  modules and of "service running" over the services, and-ed with the negation of
  \<open>dry_run\<close>. Under Python 2 this is the value of \<open>test_predicate\<close>.
\<close>

lemma nonzero_formula:
  "nonzero h pr =
     (if kmods pr = [] \<and> services pr = [] \<and> \<not> dry_run pr then True
      else ((\<exists>k \<in> set (kmods pr). is_module_loaded h k) \<or>
            (\<exists>s \<in> set (services pr). service_is_running h s)) \<and> \<not> dry_run pr)"
  by (auto simp: nonzero_def Let_def or_loop_iff)

lemma test_predicate_python2:
  "\<not> python3 h \<Longrightarrow> test_predicate h p cmd (Some pr) = nonzero h pr"
  by (simp add: test_predicate_def get_predicate_def bool_of_predicate_def)

lemma test_predicate_python3:
  "python3 h \<Longrightarrow> test_predicate h p cmd (Some pr) = True"
  by (simp add: test_predicate_def get_predicate_def bool_of_predicate_def)

text \<open>
  C8. Boolean evaluation of a predicate is meant to be the formula above: the hook
  \<open>__nonzero__\<close> computes it. Under Python 3 the hook is never called, since the class
  has no \<open>__bool__\<close>, and every predicate evaluates to true. Here a dry-run predicate
  on the loaded module \<open>kvm\<close>, for which the formula gives false, is taken as true by
  \<open>test_predicate\<close> under Python 3; under Python 2 it is false.
\<close>

theorem test_predicate_true_for_dry_run_under_python3:
  "test_predicate (host0\<lparr>python3 := True, is_module_loaded := (\<lambda>k. k = ''kvm'')\<rparr>) plugin0 False
     (Some \<lparr>dry_run = True, kmods = [''kvm''], services = []\<rparr>) = True
   \<and> test_predicate (host0\<lparr>python3 := False, is_module_loaded := (\<lambda>k. k = ''kvm'')\<rparr>) plugin0 False
     (Some \<lparr>dry_run = True, kmods = [''kvm''], services = []\<rparr>) = False"
  by (simp add: test_predicate_def get_predicate_def bool_of_predicate_def nonzero_def host0_def)

subsection \<open>Forbidden paths\<close>

lemma path_in_path_list_iff:
  "path_in_path_list path pl \<longleftrightarrow> (\<exists>f \<in> set pl. \<exists>a b. path = a @ f @ b)"
  by (induction pl) (auto simp: str_in_iff)

text \<open>
  C9. A path is forbidden exactly when some registered forbidden path occurs in the
  path string (joined with the sysroot when one is in use) as a contiguous run of
  characters, anywhere in it.
\<close>

theorem is_forbidden_path_iff_substring:
  assumes "(if use_sysroot p then join_sysroot p path else Inr path) = Inr joined"
  shows "is_forbidden_path p path =
           Inr (\<exists>f \<in> set (forbidden_paths p). \<exists>a b. joined = a @ f @ b)"
  using assms by (auto simp: is_forbidden_path_def path_in_path_list_iff split: if_splits)

text \<open>A sibling of a forbidden file whose name only continues the forbidden one.\<close>

theorem is_forbidden_path_iff_substring_witness:
  "is_forbidden_path (plugin0\<lparr>forbidden_paths := [''/etc/shadow'']\<rparr>) ''/etc/shadow-'' = Inr True"
proof -
  let ?p = "plugin0\<lparr>forbidden_paths := [''/etc/shadow'']\<rparr>"
  have j: "(if use_sysroot ?p then join_sysroot ?p ''/etc/shadow-'' else Inr ''/etc/shadow-'')
             = Inr ''/etc/shadow-''"
    by (simp add: use_sysroot_def plugin0_def)
  have "''/etc/shadow-'' = [] @ ''/etc/shadow'' @ ''-''" by simp
  then have "\<exists>f \<in> set (forbidden_paths ?p). \<exists>a b. ''/etc/shadow-'' = a @ f @ b"
    by (simp add: plugin0_def) blast
  with is_forbidden_path_iff_substring [OF j] show ?thesis by simp
qed

subsection \<open>The timeout flag\<close>









subsection \<open>Forbidden paths are not copied\<close>

lemma is_forbidden_path_cong:
  "sysroot q = sysroot p \<Longrightarrow> forbidden_paths q = forbidden_paths p \<Longrightarrow>
     is_forbidden_path q f = is_forbidden_path p f"
  by (auto simp: is_forbidden_path_def use_sysroot_def join_sysroot_def split: list.splits)

lemma do_copy_path_forbidden:
  "is_forbidden_path p path = Inr True \<Longrightarrow>
     do_copy_path (Suc n) h p path dest = Return (if timeout_hit p then None else Some []) p"
  by (simp add: do_copy_path.simps)

lemma set_add_copy_paths: "set (copy_paths (add_copy_paths p xs)) = set (copy_paths p) \<union> set xs"
  by (auto simp: add_copy_paths_def)

lemma add_copy_paths_fields:
  "sysroot (add_copy_paths p xs) = sysroot p"
  "forbidden_paths (add_copy_paths p xs) = forbidden_paths p"
  "archive (add_copy_paths p xs) = archive p"
  "copied_files (add_copy_paths p xs) = copied_files p"
  "syscalls (add_copy_paths p xs) = syscalls p"
  "copy_strings (add_copy_paths p xs) = copy_strings p"
  by (simp_all add: add_copy_paths_def)

lemma copy_spec_loop_inv:
  "outcome_plugin (copy_spec_loop h sl files cur lf p) = Some q \<Longrightarrow>
     sysroot q = sysroot p \<and> forbidden_paths q = forbidden_paths p \<and>
     archive q = archive p \<and> copied_files q = copied_files p \<and> copy_strings q = copy_strings p \<and>
     (\<forall>f \<in> set (copy_paths q). f \<in> set (copy_paths p) \<or> is_forbidden_path p f = Inr False)"
proof (induction files arbitrary: cur lf p)
  case Nil
  then show ?case by simp
next
  case (Cons f files)
  show ?case
  proof (cases "is_forbidden_path p f")
    case (Inl e)
    with Cons.prems show ?thesis by simp
  next
    case (Inr b)
    show ?thesis
    proof (cases b)
      case True
      with Inr Cons.prems have "outcome_plugin (copy_spec_loop h sl files cur (Some f) p) = Some q"
        by simp
      from Cons.IH [OF this] show ?thesis .
    next
      case False
      let ?p1 = "p\<lparr>syscalls := syscalls p @ [Stat f]\<rparr>"
      let ?s1 = "(case os_stat h f of Inl en \<Rightarrow> cur | Inr st \<Rightarrow> cur + int (st_size st))"
      show ?thesis
      proof (cases "truthy_int sl \<and> ?s1 > the sl")
        case True
        with False Inr Cons.prems have "q = ?p1" by (simp add: Let_def)
        then show ?thesis by simp
      next
        case nolimit: False
        let ?p2 = "add_copy_paths ?p1 [f]"
        from nolimit False Inr Cons.prems
        have "outcome_plugin (copy_spec_loop h sl files ?s1 (Some f) ?p2) = Some q"
          by (auto simp: Let_def split: if_splits)
        from Cons.IH [OF this]
        have ih: "sysroot q = sysroot ?p2 \<and> forbidden_paths q = forbidden_paths ?p2 \<and>
            archive q = archive ?p2 \<and> copied_files q = copied_files ?p2 \<and>
            copy_strings q = copy_strings ?p2 \<and>
            (\<forall>g \<in> set (copy_paths q). g \<in> set (copy_paths ?p2) \<or> is_forbidden_path ?p2 g = Inr False)" .
        have same: "is_forbidden_path ?p2 g = is_forbidden_path p g" for g
          by (rule is_forbidden_path_cong) (simp_all add: add_copy_paths_fields)
        from ih same False Inr show ?thesis
          by (auto simp: add_copy_paths_fields set_add_copy_paths)
      qed
    qed
  qed
qed

lemma copy_spec_loop_limit_file:
  "copy_spec_loop h sl files cur lf p = Return (cur', True, lf') q \<Longrightarrow>
     \<exists>f. lf' = Some f \<and> is_forbidden_path p f = Inr False"
proof (induction files arbitrary: cur lf p)
  case Nil
  then show ?case by simp
next
  case (Cons f files)
  show ?case
  proof (cases "is_forbidden_path p f")
    case (Inl e)
    with Cons.prems show ?thesis by simp
  next
    case (Inr b)
    show ?thesis
    proof (cases b)
      case True
      with Inr Cons.prems Cons.IH show ?thesis by simp
    next
      case False
      let ?p1 = "p\<lparr>syscalls := syscalls p @ [Stat f]\<rparr>"
      let ?s1 = "(case os_stat h f of Inl en \<Rightarrow> cur | Inr st \<Rightarrow> cur + int (st_size st))"
      show ?thesis
      proof (cases "truthy_int sl \<and> ?s1 > the sl")
        case True
        with False Inr Cons.prems show ?thesis by (auto simp: Let_def)
      next
        case nolimit: False
        let ?p2 = "add_copy_paths ?p1 [f]"
        from nolimit False Inr Cons.prems
        have "copy_spec_loop h sl files ?s1 (Some f) ?p2 = Return (cur', True, lf') q"
          by (auto simp: Let_def split: if_splits)
        from Cons.IH [OF this] obtain g where "lf' = Some g" "is_forbidden_path ?p2 g = Inr False"
          by blast
        moreover have "is_forbidden_path ?p2 g = is_forbidden_path p g"
          by (rule is_forbidden_path_cong) (simp_all add: add_copy_paths_fields)
        ultimately show ?thesis by simp
      qed
    qed
  qed
qed

lemma respects_forbidden_refl: "respects_forbidden h p p"
  by (simp add: respects_forbidden_def)

lemma respects_forbidden_trans:
  assumes pq: "respects_forbidden h p q" and qr: "respects_forbidden h q r"
  shows "respects_forbidden h p r"
proof -
  have same: "is_forbidden_path q f = is_forbidden_path p f" for f
    using pq by (intro is_forbidden_path_cong) (simp_all add: respects_forbidden_def)
  from pq obtain ops1 where o1: "archive q = archive p @ ops1"
    "\<forall>op \<in> set ops1. \<exists>l f. op = AddLink l f \<and> is_forbidden_path p f = Inr False"
    by (auto simp: respects_forbidden_def)
  from qr obtain ops2 where o2: "archive r = archive q @ ops2"
    "\<forall>op \<in> set ops2. \<exists>l f. op = AddLink l f \<and> is_forbidden_path q f = Inr False"
    by (auto simp: respects_forbidden_def)
  have "archive r = archive p @ (ops1 @ ops2)" using o1 o2 by simp
  moreover have "\<forall>op \<in> set (ops1 @ ops2). \<exists>l f. op = AddLink l f \<and> is_forbidden_path p f = Inr False"
    using o1(2) o2(2) same by auto
  ultimately have arch: "\<exists>ops. archive r = archive p @ ops \<and>
         (\<forall>op \<in> set ops. \<exists>l f. op = AddLink l f \<and> is_forbidden_path p f = Inr False)"
    by blast
  from pq obtain s1 where s1: "copy_strings q = copy_strings p @ s1"
    "\<forall>s \<in> set s1. \<exists>f k. tail h f k = Inr (fst s) \<and> is_forbidden_path p f = Inr False"
    by (auto simp: respects_forbidden_def)
  from qr obtain s2 where s2: "copy_strings r = copy_strings q @ s2"
    "\<forall>s \<in> set s2. \<exists>f k. tail h f k = Inr (fst s) \<and> is_forbidden_path q f = Inr False"
    by (auto simp: respects_forbidden_def)
  have "copy_strings r = copy_strings p @ (s1 @ s2)" using s1 s2 by simp
  moreover have "\<forall>s \<in> set (s1 @ s2). \<exists>f k. tail h f k = Inr (fst s) \<and> is_forbidden_path p f = Inr False"
    using s1(2) s2(2) same by auto
  ultimately have strs: "\<exists>strs. copy_strings r = copy_strings p @ strs \<and>
         (\<forall>s \<in> set strs. \<exists>f k. tail h f k = Inr (fst s) \<and> is_forbidden_path p f = Inr False)"
    by blast
  have paths: "\<forall>f \<in> set (copy_paths r). f \<in> set (copy_paths p) \<or> is_forbidden_path p f = Inr False"
    using pq qr same by (auto simp: respects_forbidden_def)
  from pq qr arch strs paths show ?thesis by (simp add: respects_forbidden_def)
qed

lemma copy_spec_loop_respects:
  "outcome_plugin (copy_spec_loop h sl files cur lf p) = Some q \<Longrightarrow> respects_forbidden h p q"
  using copy_spec_loop_inv [of h sl files cur lf p q] by (simp add: respects_forbidden_def)

lemma syscalls_update_respects: "respects_forbidden h p (p\<lparr>syscalls := xs\<rparr>)"
  by (simp add: respects_forbidden_def is_forbidden_path_def)

lemma tail_fallback_respects:
  assumes "outcome_plugin (tail_fallback h p f sl) = Some q" and "is_forbidden_path p f = Inr False"
  shows "respects_forbidden h p q"
proof (cases f)
  case Nil
  with assms show ?thesis by (simp add: tail_fallback_def respects_forbidden_refl)
next
  case (Cons c cs)
  show ?thesis
  proof (cases "tail h f sl")
    case (Inl en)
    with Cons assms(1) have "q = p\<lparr>syscalls := syscalls p @ [ReadTail f sl]\<rparr>"
      by (simp add: tail_fallback_def)
    then show ?thesis by (simp add: syscalls_update_respects)
  next
    case (Inr content)
    with Cons assms(1) obtain strs l where
      q: "sysroot q = sysroot p" "forbidden_paths q = forbidden_paths p"
         "copied_files q = copied_files p" "copy_paths q = copy_paths p"
         "archive q = archive p @ [AddLink l f]"
         "copy_strings q = copy_strings p @ strs" "strs = [] \<or> (\<exists>n. strs = [(content, n)])"
      by (auto simp: tail_fallback_def add_string_as_file_def Let_def split: if_splits)
    from q(7) Inr assms(2)
    have "\<forall>s \<in> set strs. \<exists>g k. tail h g k = Inr (fst s) \<and> is_forbidden_path p g = Inr False"
      by fastforce
    with q assms(2) show ?thesis by (auto simp: respects_forbidden_def)
  qed
qed

lemma add_one_copy_spec_respects:
  assumes "outcome_plugin (add_one_copy_spec h p spec sl t) = Some q"
  shows "respects_forbidden h p q"
proof (cases "if use_sysroot p then join_sysroot p spec else Inr spec")
  case (Inl e)
  with assms show ?thesis by (simp add: add_one_copy_spec_def respects_forbidden_refl)
next
  case (Inr js)
  let ?files = "glob_glob h js"
  show ?thesis
  proof (cases "length ?files = 0")
    case True
    with Inr assms show ?thesis by (simp add: add_one_copy_spec_def respects_forbidden_refl)
  next
    case False
    let ?p1 = "p\<lparr>syscalls := syscalls p @ map Getmtime ?files\<rparr>"
    let ?run = "copy_spec_loop h sl (sort_newest_first h ?files) 0 None ?p1"
    have p1: "respects_forbidden h p ?p1" by (rule syscalls_update_respects)
    have same: "is_forbidden_path ?p1 f = is_forbidden_path p f" for f
      by (rule is_forbidden_path_cong) simp_all
    show ?thesis
    proof (cases ?run)
      case (Return r q1)
      obtain cs lim lastf where r: "r = (cs, lim, lastf)" by (cases r) auto
      from Return have q1: "respects_forbidden h ?p1 q1"
        by (intro copy_spec_loop_respects [of h sl "sort_newest_first h ?files" 0 None]) simp
      show ?thesis
      proof (cases "lim \<and> t \<and> \<not> file_is_compressed (the lastf)")
        case True
        with Return r obtain f where f: "lastf = Some f" "is_forbidden_path ?p1 f = Inr False"
          using copy_spec_loop_limit_file [of h sl "sort_newest_first h ?files" 0 None ?p1 cs lastf q1]
          by auto
        from True Return r Inr False assms f
        have "outcome_plugin (tail_fallback h q1 f (the sl)) = Some q"
          by (simp add: add_one_copy_spec_def Let_def)
        moreover have "is_forbidden_path q1 f = Inr False"
          using f(2) q1 is_forbidden_path_cong [of q1 ?p1 f] by (simp add: respects_forbidden_def)
        ultimately have "respects_forbidden h q1 q" by (rule tail_fallback_respects)
        with p1 q1 show ?thesis by (blast intro: respects_forbidden_trans)
      next
        case notail: False
        with Return r Inr False assms have "q = q1"
          by (auto simp: add_one_copy_spec_def Let_def)
        with p1 q1 show ?thesis by (blast intro: respects_forbidden_trans)
      qed
    next
      case (Raise e q1)
      then have q1: "respects_forbidden h ?p1 q1"
        by (intro copy_spec_loop_respects [of h sl "sort_newest_first h ?files" 0 None]) simp
      from Raise Inr False assms have "q = q1" by (simp add: add_one_copy_spec_def Let_def)
      with p1 q1 show ?thesis by (blast intro: respects_forbidden_trans)
    next
      case Diverge
      with Inr False assms show ?thesis by (simp add: add_one_copy_spec_def Let_def)
    qed
  qed
qed

lemma copy_specs_loop_respects:
  "outcome_plugin (copy_specs_loop h p specs sl t) = Some q \<Longrightarrow> respects_forbidden h p q"
proof (induction specs arbitrary: p)
  case Nil
  then show ?case by (simp add: respects_forbidden_refl)
next
  case (Cons spec rest)
  show ?case
  proof (cases "spec = []")
    case True
    with Cons.prems show ?thesis by (simp add: respects_forbidden_refl)
  next
    case False
    show ?thesis
    proof (cases "add_one_copy_spec h p spec sl t")
      case (Return u q1)
      then have "respects_forbidden h p q1" by (intro add_one_copy_spec_respects [of h p spec sl t]) simp
      moreover from Return False Cons.prems have "respects_forbidden h q1 q"
        by (intro Cons.IH) simp
      ultimately show ?thesis by (rule respects_forbidden_trans)
    next
      case (Raise e q1)
      then have "respects_forbidden h p q1" by (intro add_one_copy_spec_respects [of h p spec sl t]) simp
      moreover from Raise False Cons.prems have "q = q1" by simp
      ultimately show ?thesis by simp
    next
      case Diverge
      with False Cons.prems show ?thesis by simp
    qed
  qed
qed

lemma add_copy_spec_respects:
  "outcome_plugin (add_copy_spec h p specs sizelimit tailit pred) = Some q \<Longrightarrow> respects_forbidden h p q"
  by (auto simp del: copy_specs_loop.simps simp: add_copy_spec_def Let_def respects_forbidden_refl
           intro: copy_specs_loop_respects split: if_splits copyspecs.splits)

text \<open>
  C1. A path classified as forbidden is never copied. Given directly to
  \<open>_do_copy_path\<close>, the call returns at the forbidden check and leaves the plugin as it
  is: no \<open>lstat\<close>, no copied-file record, no archive entry (with the timeout flag set
  the call has returned before, with the same plugin). Met in the expansion of a glob
  by \<open>add_copy_spec\<close>, the loop goes on to the next file with the plugin as it is; and
  whatever \<open>add_copy_spec\<close> is called with, it appends no copied-file record, it does not
  add the forbidden path to the copy paths, the only archive entries it makes are links
  from files that are not forbidden, and the only strings it queues are tails of files
  that are not forbidden.
\<close>

theorem forbidden_path_is_skipped_without_record:
  assumes "is_forbidden_path p path = Inr True"
  shows "do_copy_path (Suc n) h p path dest = Return (if timeout_hit p then None else Some []) p
       \<and> copy_spec_loop h sl (path # files) cur lf p = copy_spec_loop h sl files cur (Some path) p
       \<and> (\<forall>q. outcome_plugin (add_copy_spec h p specs sizelimit tailit pred) = Some q \<longrightarrow>
              copied_files q = copied_files p
            \<and> (path \<in> set (copy_paths q) \<longrightarrow> path \<in> set (copy_paths p))
            \<and> (\<exists>ops. archive q = archive p @ ops \<and>
                  (\<forall>op \<in> set ops. \<exists>l f. op = AddLink l f \<and> is_forbidden_path p f = Inr False))
            \<and> (\<exists>strs. copy_strings q = copy_strings p @ strs \<and>
                  (\<forall>s \<in> set strs. \<exists>f k. tail h f k = Inr (fst s) \<and> is_forbidden_path p f = Inr False)))"
proof -
  have "copied_files q = copied_files p
            \<and> (path \<in> set (copy_paths q) \<longrightarrow> path \<in> set (copy_paths p))
            \<and> (\<exists>ops. archive q = archive p @ ops \<and>
                  (\<forall>op \<in> set ops. \<exists>l f. op = AddLink l f \<and> is_forbidden_path p f = Inr False))
            \<and> (\<exists>strs. copy_strings q = copy_strings p @ strs \<and>
                  (\<forall>s \<in> set strs. \<exists>f k. tail h f k = Inr (fst s) \<and> is_forbidden_path p f = Inr False))"
    if "outcome_plugin (add_copy_spec h p specs sizelimit tailit pred) = Some q" for q
  proof -
    from that have r: "respects_forbidden h p q" by (rule add_copy_spec_respects)
    then have "path \<in> set (copy_paths q) \<longrightarrow> path \<in> set (copy_paths p)"
      using assms by (auto simp: respects_forbidden_def)
    with r show ?thesis by (simp add: respects_forbidden_def)
  qed
  with assms show ?thesis by (simp add: do_copy_path_forbidden)
qed

text \<open>
  \<open>/etc/shadow\<close> is forbidden: copying it directly does nothing, and the glob
  \<open>/etc/*\<close> adds only \<open>/etc/passwd\<close>.
\<close>

theorem forbidden_path_is_skipped_without_record_witness:
  "is_forbidden_path etc_plugin ''/etc/shadow'' = Inr True
   \<and> do_copy_path 1 etc_host etc_plugin ''/etc/shadow'' None = Return (Some []) etc_plugin
   \<and> add_copy_spec etc_host etc_plugin (OneSpec ''/etc/*'') None True None =
       Return None (etc_plugin
         \<lparr>copy_paths := [''/etc/passwd''],
          syscalls := [Getmtime ''/etc/passwd'', Getmtime ''/etc/shadow'', Stat ''/etc/passwd'']\<rparr>)"
proof -
  have f: "is_forbidden_path etc_plugin ''/etc/shadow'' = Inr True"
    by (simp add: is_forbidden_path_def etc_plugin_def plugin0_def use_sysroot_def)
  have np: "is_forbidden_path etc_plugin ''/etc/passwd'' = Inr False"
    by (simp add: is_forbidden_path_def etc_plugin_def plugin0_def use_sysroot_def)
  have t: "\<not> timeout_hit etc_plugin" by (simp add: etc_plugin_def plugin0_def)
  from forbidden_path_is_skipped_without_record [OF f, of 0 etc_host None]
  have skip: "do_copy_path 1 etc_host etc_plugin ''/etc/shadow'' None = Return (Some []) etc_plugin"
    using t by simp
  have run: "add_copy_spec etc_host etc_plugin (OneSpec ''/etc/*'') None True None =
       Return None (etc_plugin
         \<lparr>copy_paths := [''/etc/passwd''],
          syscalls := [Getmtime ''/etc/passwd'', Getmtime ''/etc/shadow'', Stat ''/etc/passwd'']\<rparr>)"
    by (simp add: add_copy_spec_def test_predicate_def get_predicate_def bool_of_predicate_def
          add_one_copy_spec_def sort_newest_first_def getmtime_def reg_file_def
          etc_host_def host0_def opts0_def etc_plugin_def plugin0_def use_sysroot_def
          is_forbidden_path_def truthy_int_def add_copy_paths_def Let_def)
  from f skip run show ?thesis by simp
qed

subsection \<open>The size budget of a copy spec\<close>

lemma stat_size_nonneg: "0 \<le> stat_size h f"
  by (simp add: stat_size_def split: sum.splits)

lemma sum_stat_size_nonneg: "0 \<le> sum_list (map (stat_size h) fs)"
  by (induction fs) (simp_all add: stat_size_nonneg)

lemma copy_spec_loop_step:
  assumes "is_forbidden_path p f = Inr False"
  shows "copy_spec_loop h sl (f # files) cur lf p =
           (if truthy_int sl \<and> cur + stat_size h f > the sl
            then Return (cur + stat_size h f, True, Some f) (p\<lparr>syscalls := syscalls p @ [Stat f]\<rparr>)
            else copy_spec_loop h sl files (cur + stat_size h f) (Some f)
                   (add_copy_paths (p\<lparr>syscalls := syscalls p @ [Stat f]\<rparr>) [f]))"
  using assms by (cases "os_stat h f") (auto simp: stat_size_def Let_def)

lemma copy_spec_loop_until_budget:
  assumes "\<forall>f \<in> set (pre @ [g]). is_forbidden_path p f = Inr False"
      and "L \<noteq> 0"
      and "cur + sum_list (map (stat_size h) pre) \<le> L"
      and "L < cur + sum_list (map (stat_size h) pre) + stat_size h g"
  shows "\<exists>q. copy_spec_loop h (Some L) (pre @ g # rest) cur lf p =
               Return (cur + sum_list (map (stat_size h) (pre @ [g])), True, Some g) q
           \<and> set (copy_paths q) = set (copy_paths p) \<union> set pre
           \<and> (distinct pre \<and> set pre \<inter> set (copy_paths p) = {} \<longrightarrow> copy_paths q = copy_paths p @ pre)
           \<and> syscalls q = syscalls p @ map Stat (pre @ [g])"
  using assms
proof (induction pre arbitrary: cur lf p)
  case Nil
  then show ?case by (simp add: copy_spec_loop_step truthy_int_def del: copy_spec_loop.simps)
next
  case (Cons f pre)
  let ?p2 = "add_copy_paths (p\<lparr>syscalls := syscalls p @ [Stat f]\<rparr>) [f]"
  let ?c2 = "cur + stat_size h f"
  have nf: "is_forbidden_path p f = Inr False" using Cons.prems(1) by simp
  have "?c2 \<le> cur + sum_list (map (stat_size h) (f # pre))"
    using sum_stat_size_nonneg [of h pre] by simp
  with Cons.prems(3) have under: "\<not> ?c2 > L" by simp
  have step: "copy_spec_loop h (Some L) ((f # pre) @ g # rest) cur lf p =
                copy_spec_loop h (Some L) (pre @ g # rest) ?c2 (Some f) ?p2"
    using under by (simp add: copy_spec_loop_step [OF nf] del: copy_spec_loop.simps)
  have same: "is_forbidden_path ?p2 x = is_forbidden_path p x" for x
    by (rule is_forbidden_path_cong) (simp_all add: add_copy_paths_def)
  have "\<exists>q. copy_spec_loop h (Some L) (pre @ g # rest) ?c2 (Some f) ?p2 =
               Return (?c2 + sum_list (map (stat_size h) (pre @ [g])), True, Some g) q
           \<and> set (copy_paths q) = set (copy_paths ?p2) \<union> set pre
           \<and> (distinct pre \<and> set pre \<inter> set (copy_paths ?p2) = {} \<longrightarrow> copy_paths q = copy_paths ?p2 @ pre)
           \<and> syscalls q = syscalls ?p2 @ map Stat (pre @ [g])"
  proof (rule Cons.IH)
    show "\<forall>x \<in> set (pre @ [g]). is_forbidden_path ?p2 x = Inr False"
      using Cons.prems(1) same by simp
    show "L \<noteq> 0" by fact
    show "?c2 + sum_list (map (stat_size h) pre) \<le> L" using Cons.prems(3) by simp
    show "L < ?c2 + sum_list (map (stat_size h) pre) + stat_size h g" using Cons.prems(4) by simp
  qed
  then obtain q where q:
    "copy_spec_loop h (Some L) (pre @ g # rest) ?c2 (Some f) ?p2 =
       Return (?c2 + sum_list (map (stat_size h) (pre @ [g])), True, Some g) q"
    "set (copy_paths q) = set (copy_paths ?p2) \<union> set pre"
    "distinct pre \<and> set pre \<inter> set (copy_paths ?p2) = {} \<longrightarrow> copy_paths q = copy_paths ?p2 @ pre"
    "syscalls q = syscalls ?p2 @ map Stat (pre @ [g])"
    by blast
  have p2set: "set (copy_paths ?p2) = set (copy_paths p) \<union> {f}"
    by (auto simp: add_copy_paths_def)
  have p2new: "f \<notin> set (copy_paths p) \<Longrightarrow> copy_paths ?p2 = copy_paths p @ [f]"
    by (simp add: add_copy_paths_def)
  have 1: "copy_spec_loop h (Some L) ((f # pre) @ g # rest) cur lf p =
             Return (cur + sum_list (map (stat_size h) ((f # pre) @ [g])), True, Some g) q"
    using step q(1) by simp
  have 2: "set (copy_paths q) = set (copy_paths p) \<union> set (f # pre)"
    using q(2) p2set by auto
  have 3: "distinct (f # pre) \<and> set (f # pre) \<inter> set (copy_paths p) = {} \<longrightarrow>
             copy_paths q = copy_paths p @ f # pre"
  proof
    assume d: "distinct (f # pre) \<and> set (f # pre) \<inter> set (copy_paths p) = {}"
    then have fp: "f \<notin> set (copy_paths p)" by auto
    from d have "distinct pre \<and> set pre \<inter> set (copy_paths ?p2) = {}"
      unfolding p2set by auto
    with q(3) have "copy_paths q = copy_paths ?p2 @ pre" by blast
    with p2new [OF fp] show "copy_paths q = copy_paths p @ f # pre" by simp
  qed
  have 4: "syscalls q = syscalls p @ map Stat ((f # pre) @ [g])"
    using q(4) by (simp add: add_copy_paths_def)
  from 1 2 3 4 show ?case by blast
qed

lemma sort_newest_first_sorted:
  "sorted_wrt (\<lambda>a b. getmtime h b \<le> getmtime h a) (sort_newest_first h files)"
proof -
  have "sorted (map (\<lambda>f. - getmtime h f) (sort_newest_first h files))"
    by (simp add: sort_newest_first_def)
  then show ?thesis by (simp add: sorted_map sorted_wrt_iff_nth_less) 
qed

lemma sort_newest_first_set:
  "set (sort_newest_first h files) = set files \<and> length (sort_newest_first h files) = length files"
  by (simp add: sort_newest_first_def)


text \<open>
  C3. \<open>add_copy_spec\<close> sorts the files of a glob newest first and goes through them in
  that order, adding each to the copy paths and its size to a running total. Let the
  sorted list be \<open>pre @ g # rest\<close>, where the files \<open>pre\<close> fit in the budget \<open>L\<close>
  (in bytes) and \<open>g\<close> is the file with which the total exceeds it, none of them
  forbidden. Then the loop ends at \<open>g\<close> with the limit reached: the copy paths have
  gained exactly the files \<open>pre\<close>, in their order, the total is that of \<open>pre\<close> and
  \<open>g\<close>, the files examined by \<open>os.stat\<close> are \<open>pre\<close> and \<open>g\<close> in their order and no
  file of \<open>rest\<close>, and \<open>g\<close> is the file handed to the tail fallback, or dropped when
  \<open>tailit\<close> is off or \<open>g\<close> is compressed. The only access to the files of \<open>rest\<close>
  is the reading of the modification times for the sort, before the loop.
\<close>

theorem add_copy_spec_accumulates_newest_first_until_budget:
  assumes spec: "(if use_sysroot p then join_sysroot p copyspec else Inr copyspec) = Inr spec"
      and files: "sort_newest_first h (glob_glob h spec) = pre @ g # rest"
      and nf: "\<forall>f \<in> set (pre @ [g]). is_forbidden_path p f = Inr False"
      and lim: "L \<noteq> 0"
      and under: "sum_list (map (stat_size h) pre) \<le> L"
      and over: "L < sum_list (map (stat_size h) pre) + stat_size h g"
  shows "sorted_wrt (\<lambda>a b. getmtime h b \<le> getmtime h a) (pre @ g # rest)
       \<and> (\<exists>q. copy_spec_loop h (Some L) (pre @ g # rest) 0 None
                 (p\<lparr>syscalls := syscalls p @ map Getmtime (glob_glob h spec)\<rparr>) =
               Return (sum_list (map (stat_size h) (pre @ [g])), True, Some g) q
            \<and> set (copy_paths q) = set (copy_paths p) \<union> set pre
            \<and> (distinct pre \<and> set pre \<inter> set (copy_paths p) = {} \<longrightarrow>
                  copy_paths q = copy_paths p @ pre)
            \<and> syscalls q = syscalls p @ map Getmtime (glob_glob h spec) @ map Stat (pre @ [g])
            \<and> add_one_copy_spec h p copyspec (Some L) tailit =
                (if tailit \<and> \<not> file_is_compressed g then tail_fallback h q g L else Return () q))"
proof -
  let ?p1 = "p\<lparr>syscalls := syscalls p @ map Getmtime (glob_glob h spec)\<rparr>"
  have srt: "sorted_wrt (\<lambda>a b. getmtime h b \<le> getmtime h a) (pre @ g # rest)"
    using sort_newest_first_sorted [of h "glob_glob h spec"] files by simp
  have same: "is_forbidden_path ?p1 x = is_forbidden_path p x" for x
    by (rule is_forbidden_path_cong) simp_all
  have "\<exists>q. copy_spec_loop h (Some L) (pre @ g # rest) 0 None ?p1 =
               Return (0 + sum_list (map (stat_size h) (pre @ [g])), True, Some g) q
           \<and> set (copy_paths q) = set (copy_paths ?p1) \<union> set pre
           \<and> (distinct pre \<and> set pre \<inter> set (copy_paths ?p1) = {} \<longrightarrow> copy_paths q = copy_paths ?p1 @ pre)
           \<and> syscalls q = syscalls ?p1 @ map Stat (pre @ [g])"
  proof (rule copy_spec_loop_until_budget)
    show "\<forall>f \<in> set (pre @ [g]). is_forbidden_path ?p1 f = Inr False" using nf same by simp
    show "L \<noteq> 0" by fact
    show "0 + sum_list (map (stat_size h) pre) \<le> L" using under by simp
    show "L < 0 + sum_list (map (stat_size h) pre) + stat_size h g" using over by simp
  qed
  then obtain q where q:
    "copy_spec_loop h (Some L) (pre @ g # rest) 0 None ?p1 =
       Return (sum_list (map (stat_size h) (pre @ [g])), True, Some g) q"
    "set (copy_paths q) = set (copy_paths p) \<union> set pre"
    "distinct pre \<and> set pre \<inter> set (copy_paths p) = {} \<longrightarrow> copy_paths q = copy_paths p @ pre"
    "syscalls q = syscalls p @ map Getmtime (glob_glob h spec) @ map Stat (pre @ [g])"
    by auto
  have ne: "length (glob_glob h spec) \<noteq> 0"
    using files sort_newest_first_set [of h "glob_glob h spec"] by auto
  have "add_one_copy_spec h p copyspec (Some L) tailit =
          (if tailit \<and> \<not> file_is_compressed g then tail_fallback h q g L else Return () q)"
    using spec ne files q(1) by (simp add: add_one_copy_spec_def Let_def)
  with srt q show ?thesis by blast
qed

text \<open>
  Three files of 10 MB and a budget of 15 MB: the newest file is added, the second is
  the one at which the limit is reached, and the third is not examined.
\<close>

theorem add_copy_spec_accumulates_newest_first_until_budget_witness:
  "\<exists>q. add_copy_spec logs_host plugin0 (OneSpec ''/var/log/app*'') (Some 15) False None = Return None q
      \<and> copy_paths q = [''/var/log/app'']
      \<and> syscalls q = [Getmtime ''/var/log/app.2'', Getmtime ''/var/log/app'', Getmtime ''/var/log/app.1'',
                      Stat ''/var/log/app'', Stat ''/var/log/app.1'']"
proof -
  have spec: "(if use_sysroot plugin0 then join_sysroot plugin0 ''/var/log/app*'' else Inr ''/var/log/app*'')
                = Inr ''/var/log/app*''"
    by (simp add: use_sysroot_def plugin0_def)
  have glob: "glob_glob logs_host ''/var/log/app*'' = [''/var/log/app.2'', ''/var/log/app'', ''/var/log/app.1'']"
    by (simp add: logs_host_def host0_def)
  have files: "sort_newest_first logs_host (glob_glob logs_host ''/var/log/app*'') =
                 [''/var/log/app''] @ ''/var/log/app.1'' # [''/var/log/app.2'']"
    unfolding glob by (simp add: sort_newest_first_def getmtime_def logs_host_def host0_def reg_file_def)
  have nf: "\<forall>f \<in> set ([''/var/log/app''] @ [''/var/log/app.1'']). is_forbidden_path plugin0 f = Inr False"
    by (simp add: is_forbidden_path_def use_sysroot_def plugin0_def)
  have lim: "(15728640::int) \<noteq> 0" by simp
  have under: "sum_list (map (stat_size logs_host) [''/var/log/app'']) \<le> 15728640"
    by (simp add: stat_size_def logs_host_def host0_def reg_file_def)
  have over: "15728640 < sum_list (map (stat_size logs_host) [''/var/log/app'']) + stat_size logs_host ''/var/log/app.1''"
    by (simp add: stat_size_def logs_host_def host0_def reg_file_def)
  from add_copy_spec_accumulates_newest_first_until_budget
         [OF spec files nf lim under over, of False]
  obtain q where q:
    "copy_paths q = copy_paths plugin0 @ [''/var/log/app'']"
    "syscalls q = syscalls plugin0 @ map Getmtime (glob_glob logs_host ''/var/log/app*'')
                    @ map Stat ([''/var/log/app''] @ [''/var/log/app.1''])"
    "add_one_copy_spec logs_host plugin0 ''/var/log/app*'' (Some 15728640) False = Return () q"
    by (auto simp: plugin0_def)
  have "add_copy_spec logs_host plugin0 (OneSpec ''/var/log/app*'') (Some 15) False None = Return None q"
    using q(3)
    by (simp add: add_copy_spec_def test_predicate_def get_predicate_def bool_of_predicate_def
          plugin0_def logs_host_def host0_def opts0_def truthy_int_def)
  with q(1,2) glob show ?thesis by (simp add: plugin0_def)
qed

subsection \<open>The retry without chroot\<close>

text \<open>
  C5. A command run under a root other than \<open>/\<close> that ends with status 126 or 127,
  when chroot is not forced to \<open>always\<close>, is run exactly once more, without chroot, and
  the result of that second run is what \<open>get_command_output\<close> returns, whatever its
  status: the runner is called twice, the second time with no root, with \<open>stderr\<close> on
  and no size limit. The second run cannot start a third, since it has no root. A
  command that is blank, and a second run that ends with status 124 when no timeout was
  given, make the logging call raise instead; they are left out here.
\<close>

theorem get_command_output_retries_once_without_chroot:
  fixes h p prog tmo serr runat env bin sizelimit
  defines "args1 \<equiv> \<lparr>ea_command = prog, ea_timeout = tmo, ea_stderr = serr,
                      ea_chroot = Some (sysroot p), ea_chdir = runat, ea_env = env,
                      ea_binary = bin, ea_sizelimit = sizelimit\<rparr>"
      and "args2 \<equiv> \<lparr>ea_command = prog, ea_timeout = tmo, ea_stderr = True,
                      ea_chroot = None, ea_chdir = runat, ea_env = env,
                      ea_binary = bin, ea_sizelimit = None\<rparr>"
  defines "r1 \<equiv> sos_get_command_output h (length (cmd_calls p)) args1"
      and "r2 \<equiv> sos_get_command_output h (Suc (length (cmd_calls p))) args2"
  assumes "\<not> timeout_hit p"
      and "sysroot p \<noteq> []" and "sysroot p \<noteq> ''/''"
      and "opt_chroot (opts h) \<noteq> ''always''"
      and "cr_status r1 = 126 \<or> cr_status r1 = 127"
      and "\<not> split_is_empty h prog"
      and "\<not> (tmo = None \<and> cr_status r2 = 124)"
  shows "get_command_output h p prog tmo serr True runat env bin sizelimit =
           Return (Some r2) (p\<lparr>cmd_calls := cmd_calls p @ [args1, args2]\<rparr>)"
proof -
  let ?p1 = "p\<lparr>cmd_calls := cmd_calls p @ [args1]\<rparr>"
  have first: "get_command_output h p prog tmo serr True runat env bin sizelimit =
                 get_command_output h ?p1 prog tmo True False runat env bin None"
    using assms(5-10)
    by (subst get_command_output.simps) (auto simp: Let_def truthy_str_def args1_def r1_def)
  have second: "get_command_output h ?p1 prog tmo True False runat env bin None =
                  Return (Some r2) (?p1\<lparr>cmd_calls := cmd_calls ?p1 @ [args2]\<rparr>)"
    using assms(5-11)
    by (subst get_command_output.simps) (auto simp: Let_def truthy_str_def args2_def r2_def)
  from first second show ?thesis by simp
qed

text \<open>
  \<open>lvm vgs\<close> is not found under \<open>/sysroot\<close> and fails with status 1 in the host's root:
  status 1 and the output of the second run are returned.
\<close>

theorem get_command_output_retries_once_without_chroot_witness:
  "get_command_output chroot_host chroot_plugin ''lvm vgs'' (Some 300) True True None None False None =
     Return (Some \<lparr>cr_status = 1, cr_output = ''lvm: no volume groups''\<rparr>)
       (chroot_plugin\<lparr>cmd_calls :=
          [\<lparr>ea_command = ''lvm vgs'', ea_timeout = Some 300, ea_stderr = True,
             ea_chroot = Some ''/sysroot'', ea_chdir = None, ea_env = None,
             ea_binary = False, ea_sizelimit = None\<rparr>,
           \<lparr>ea_command = ''lvm vgs'', ea_timeout = Some 300, ea_stderr = True,
             ea_chroot = None, ea_chdir = None, ea_env = None,
             ea_binary = False, ea_sizelimit = None\<rparr>]\<rparr>)"
  using get_command_output_retries_once_without_chroot
          [of chroot_plugin chroot_host "''lvm vgs''" "Some 300" True None None False None]
  by (simp add: chroot_plugin_def chroot_host_def plugin0_def host0_def opts0_def
        split_is_empty_def ascii_space_def)

subsection \<open>The tail fallback\<close>

lemma length_ten_mb: "length ten_mb = 10485760"
  by (simp add: ten_mb_def)

text \<open>
  C4. The tail of the file at which the limit was reached should fill what is left of
  the budget. \<open>add_copy_spec\<close> asks \<open>tail\<close> for as many bytes as the whole limit
  instead. With the three files of 10 MB and a limit of 15 MB, 5 MB are left after the
  newest file; the call asks for the last 15728640 bytes of the second file and queues
  all of its 10 MB as the string \<open>var.log.app.1.tailed\<close>, so that 20 MB are collected
  under a limit of 15. The link from the file to the string is made as described.
\<close>

theorem tail_fallback_reads_up_to_the_whole_limit:
  "add_copy_spec logs_host plugin0 (OneSpec ''/var/log/app*'') (Some 15) True None =
     Return None (plugin0
       \<lparr>copy_paths := [''/var/log/app''],
        copy_strings := [(ten_mb, ''var.log.app.1.tailed'')],
        archive := [AddLink ''../../sos_strings/demo/var.log.app.1.tailed'' ''/var/log/app.1''],
        syscalls := [Getmtime ''/var/log/app.2'', Getmtime ''/var/log/app'', Getmtime ''/var/log/app.1'',
                     Stat ''/var/log/app'', Stat ''/var/log/app.1'',
                     ReadTail ''/var/log/app.1'' 15728640]\<rparr>)
   \<and> length ten_mb = 10485760"
  by (simp add: add_copy_spec_def test_predicate_def get_predicate_def bool_of_predicate_def
        add_one_copy_spec_def sort_newest_first_def getmtime_def reg_file_def
        logs_host_def host0_def opts0_def plugin0_def use_sysroot_def
        is_forbidden_path_def truthy_int_def add_copy_paths_def Let_def
        file_is_compressed_def endswith_def tail_fallback_def tail_def lstrip_def replace_char_def
        add_string_as_file_def dirname_def path_join_list_def path_join_def length_ten_mb)

subsection \<open>The number of replacements\<close>

text \<open>
  C6. \<open>do_cmd_output_sub\<close> is documented to return the number of replacements made. The
  variable \<open>replacements\<close> is assigned anew for every matching entry and starts as
  \<open>None\<close>. Two commands match \<open>*ip*\<close> here; the output of the first has two \<open>x\<close>, that
  of the second has none: two replacements are made and archived, and 0 is returned.
  When no command of the ledger matches, the value returned is \<open>None\<close>, which is also
  the value returned after an exception.
\<close>

theorem do_cmd_output_sub_returns_count_of_last_match:
  "do_cmd_output_sub sub_host sub_plugin ''ip'' ''x'' ''-'' =
     Return (Some 0)
       (sub_plugin\<lparr>archive := archive sub_plugin @ [AddString ''a--a'' ''sos_commands/demo/ip_addr'']\<rparr>)
   \<and> do_cmd_output_sub sub_host sub_plugin ''lsblk'' ''x'' ''-'' = Return None sub_plugin"
  by (simp add: do_cmd_output_sub_def sub_host_def sub_plugin_def host0_def plugin0_def
        open_file_def path_join_def endswith_def Let_def)

subsection \<open>The ledger of executed commands\<close>

lemma next_free_name_returns:
  assumes "\<not> os_path_exists h (outfn @ ''_'' @ str_of_nat k)" and "inc \<le> k"
  shows "\<exists>r. next_free_name h outfn inc = Some r"
  using assms
proof (induction "k - inc" arbitrary: inc)
  case 0
  then have "inc = k" by simp
  with 0 show ?case by (subst next_free_name.simps) simp
next
  case (Suc d)
  show ?case
  proof (cases "os_path_exists h (outfn @ ''_'' @ str_of_nat inc)")
    case False
    then show ?thesis by (subst next_free_name.simps) simp
  next
    case True
    from Suc have "\<exists>r. next_free_name h outfn (inc + 1) = Some r"
      by (intro Suc.hyps(1)) auto
    with True show ?thesis by (subst next_free_name.simps) simp
  qed
qed

lemma make_command_filename_returns:
  assumes "\<not> os_path_exists h (path_join_list (cmddir h)
                [if truthy_str subdir
                 then plugin_name p @ ''/'' @ takeWhile (\<lambda>c. c \<noteq> CHR ''/'') (the subdir)
                 else plugin_name p, mangle_command h exename (name_max h)] @ ''_'' @ str_of_nat k)"
      and "2 \<le> k"
  shows "\<exists>outfn. make_command_filename h p exename subdir = Some outfn"
  using next_free_name_returns [OF assms]
  by (simp add: make_command_filename_def Let_def)







subsection \<open>Empty copy specs\<close>

lemma copy_specs_loop_append:
  "copy_specs_loop h p pre sl t = Return None q \<Longrightarrow>
     copy_specs_loop h p (pre @ others) sl t = copy_specs_loop h q others sl t"
proof (induction pre arbitrary: p)
  case Nil
  then show ?case by simp
next
  case (Cons spec pre)
  show ?case
  proof (cases "spec = []")
    case True
    with Cons.prems show ?thesis by simp
  next
    case False
    show ?thesis
    proof (cases "add_one_copy_spec h p spec sl t")
      case (Return u q1)
      with False Cons.prems have "copy_specs_loop h q1 pre sl t = Return None q" by simp
      from Cons.IH [OF this] Return False show ?thesis by simp
    next
      case (Raise e q1)
      with False Cons.prems show ?thesis by simp
    next
      case Diverge
      with False Cons.prems show ?thesis by simp
    qed
  qed
qed

text \<open>
  Under Python 2 with \<open>--dry-run\<close>, and under either interpreter for a plugin without a
  predicate, \<open>add_copy_spec\<close> returns \<open>None\<close> for the empty list and for a list with an
  empty element: the predicate is tested before the list is looked at.
\<close>

theorem add_copy_spec_returns_None_when_predicate_is_false:
  "add_copy_spec dry_run_host dry_run_plugin (SpecList []) None True None = Return None dry_run_plugin
   \<and> add_copy_spec dry_run_host dry_run_plugin (SpecList [''/etc/*'', [], ''/var/log/*'']) None True None
       = Return None dry_run_plugin
   \<and> add_copy_spec host0 (plugin0\<lparr>predicate := None\<rparr>) (SpecList []) None True None
       = Return None (plugin0\<lparr>predicate := None\<rparr>)"
  by (simp add: add_copy_spec_def test_predicate_def get_predicate_def bool_of_predicate_def
        nonzero_def SoSPredicate_def dry_run_host_def dry_run_plugin_def host0_def opts0_def
        plugin0_def)

text \<open>
  C10, as the code has it. When the predicate of the call does not hold,
  \<open>add_copy_spec\<close> returns \<open>None\<close> and leaves the plugin as it is. When it holds: for
  the empty list, the empty string and a list that starts with an empty element the
  call returns \<open>False\<close> and leaves the plugin as it is; and when the elements \<open>pre\<close>
  before an empty element are processed without an exception, leaving the plugin \<open>q\<close>,
  the call returns \<open>False\<close> at the empty element with that same plugin \<open>q\<close>, whatever
  the remaining elements \<open>rest\<close> are: none of them is processed, and what the earlier
  specs added stays.
\<close>

theorem add_copy_spec_returns_False_at_empty_spec:
  "(\<not> test_predicate h p False pred \<longrightarrow> add_copy_spec h p specs sl t pred = Return None p)
   \<and> (test_predicate h p False pred \<longrightarrow>
        add_copy_spec h p (SpecList []) sl t pred = Return (Some False) p
      \<and> add_copy_spec h p (OneSpec []) sl t pred = Return (Some False) p
      \<and> add_copy_spec h p (SpecList ([] # rest)) sl t pred = Return (Some False) p
      \<and> (\<forall>pre q. pre \<noteq> [] \<and> add_copy_spec h p (SpecList pre) sl t pred = Return None q \<longrightarrow>
            add_copy_spec h p (SpecList (pre @ [] # rest)) sl t pred = Return (Some False) q))"
proof (intro conjI impI allI)
  assume "\<not> test_predicate h p False pred"
  then show "add_copy_spec h p specs sl t pred = Return None p" by (simp add: add_copy_spec_def)
next
  assume "test_predicate h p False pred"
  then show "add_copy_spec h p (SpecList []) sl t pred = Return (Some False) p"
    by (simp add: add_copy_spec_def Let_def)
next
  assume "test_predicate h p False pred"
  then show "add_copy_spec h p (OneSpec []) sl t pred = Return (Some False) p"
    by (simp add: add_copy_spec_def Let_def)
next
  assume "test_predicate h p False pred"
  then show "add_copy_spec h p (SpecList ([] # rest)) sl t pred = Return (Some False) p"
    by (simp add: add_copy_spec_def Let_def)
next
  fix pre q
  assume tp: "test_predicate h p False pred"
     and pq: "pre \<noteq> [] \<and> add_copy_spec h p (SpecList pre) sl t pred = Return None q"
  let ?sl = "let sizelimit1 = (case sl of None \<Rightarrow> opt_log_size (opts h) | Some s \<Rightarrow> Some s);
                 sizelimit2 = (if opt_all_logs (opts h) then None else sizelimit1)
             in if truthy_int sizelimit2 then Some (the sizelimit2 * 1024 * 1024) else sizelimit2"
  from pq have ne: "pre \<noteq> []"
    and eq: "add_copy_spec h p (SpecList pre) sl t pred = Return None q" by simp_all
  from tp ne eq have "copy_specs_loop h p pre ?sl t = Return None q"
    by (simp add: add_copy_spec_def Let_def del: copy_specs_loop.simps split del: if_split)
  from copy_specs_loop_append [OF this, of "[] # rest"]
  have "copy_specs_loop h p (pre @ [] # rest) ?sl t = Return (Some False) q" by simp
  with tp show "add_copy_spec h p (SpecList (pre @ [] # rest)) sl t pred = Return (Some False) q"
    by (simp add: add_copy_spec_def Let_def del: copy_specs_loop.simps split del: if_split)
qed

text \<open>The list \<open>/etc/*\<close>, empty string, \<open>/var/log/app*\<close>: only the files of \<open>/etc\<close> are added.\<close>

theorem add_copy_spec_returns_False_at_empty_spec_witness:
  "\<exists>q. add_copy_spec etc_host plugin0 (SpecList [''/etc/*'', [], ''/var/log/app*'']) None True None =
          Return (Some False) q
      \<and> add_copy_spec etc_host plugin0 (SpecList [''/etc/*'']) None True None = Return None q
      \<and> copy_paths q = [''/etc/passwd'', ''/etc/shadow'']"
proof -
  have tp: "test_predicate etc_host plugin0 False None"
    by (simp add: test_predicate_def get_predicate_def bool_of_predicate_def plugin0_def
          etc_host_def host0_def)
  let ?q = "plugin0\<lparr>copy_paths := [''/etc/passwd'', ''/etc/shadow''],
                    syscalls := [Getmtime ''/etc/passwd'', Getmtime ''/etc/shadow'',
                                 Stat ''/etc/passwd'', Stat ''/etc/shadow'']\<rparr>"
  have pre: "[''/etc/*''] \<noteq> [] \<and>
             add_copy_spec etc_host plugin0 (SpecList [''/etc/*'']) None True None = Return None ?q"
    by (simp add: add_copy_spec_def test_predicate_def get_predicate_def bool_of_predicate_def
          add_one_copy_spec_def sort_newest_first_def getmtime_def reg_file_def
          etc_host_def host0_def opts0_def plugin0_def use_sysroot_def
          is_forbidden_path_def truthy_int_def add_copy_paths_def Let_def)
  from add_copy_spec_returns_False_at_empty_spec
         [of etc_host plugin0 None "SpecList []" None True "[''/var/log/app*'']"] tp pre
  have "add_copy_spec etc_host plugin0 (SpecList ([''/etc/*''] @ [] # [''/var/log/app*''])) None True None =
          Return (Some False) ?q"
    by blast
  with pre show ?thesis by (intro exI [of _ ?q]) simp
qed

end
